theory Spec2Isabelle
  imports Complex_Main "HOL-Library.Log_Nat"
begin

section \<open>videogrep: the search-to-composition pipeline\<close>

text \<open>
  A shallow embedding of \<^verbatim>\<open>videogrep/videogrep.py\<close>.

  Conventions of the model.
  \<^item> Times in seconds are Python floats in the source, and \<open>double\<close> in the model:
    rational values with the arithmetic of IEEE 754 binary64, every operation rounding
    its exact result to the nearest value of 53 significant bits, ties to even.
    Overflow, subnormal numbers, signed zeros and NaN are not modelled.
  \<^item> A segment is a Python dict with the keys \<^verbatim>\<open>file\<close>, \<^verbatim>\<open>time\<close>,
    \<^verbatim>\<open>start\<close>, \<^verbatim>\<open>end\<close> and \<^verbatim>\<open>line\<close> (\<^verbatim>\<open>time\<close> is set
    by the subtitle composer only). A composition is a list of such dicts. The composers
    append a fresh dict per match, and slicing and shuffling keep the dicts distinct, so
    an in-place update of one dict is an update of one list position, and the model
    passes the list of dict values explicitly.
  \<^item> Strings are lists of 8-bit characters; the text handled is taken to be ASCII.
    Characters outside ASCII are ordinary characters to the model: neither digits nor
    whitespace nor line breaks.
\<close>

subsection \<open>Segments and the observable events of a run\<close>

text \<open>
  \<open>binade x\<close> is the exponent \<open>e\<close> with \<open>2^e \<le> x < 2^(e+1)\<close> of a positive \<open>x\<close>, \<open>rne\<close>
  rounds to the nearest integer, ties to even, and \<open>fl\<close> rounds to 53 significant bits.
\<close>

definition binade :: "rat \<Rightarrow> int" where
  "binade x =
     (let (a, b) = quotient_of x; k = bitlen a - bitlen b
      in if 2 powi k \<le> x then k else k - 1)"

definition rne :: "rat \<Rightarrow> int" where
  "rne q =
     (let f = \<lfloor>q\<rfloor>; d = q - of_int f
      in if d < 1/2 then f else if 1/2 < d then f + 1 else if even f then f else f + 1)"

definition fl_pos :: "rat \<Rightarrow> rat" where
  "fl_pos x = (let u = 2 powi (binade x - 52) in of_int (rne (x / u)) * u)"

definition fl :: "rat \<Rightarrow> rat" where
  "fl x = (if x = 0 then 0 else if 0 < x then fl_pos x else - fl_pos (- x))"

datatype double = Double (val: rat)

instantiation double :: "{zero, one, plus, minus, times, inverse, ord}"
begin

definition zero_double :: double where
  "zero_double = Double 0"

definition one_double :: double where
  "one_double = Double 1"

definition plus_double :: "double \<Rightarrow> double \<Rightarrow> double" where
  "plus_double a b = Double (fl (val a + val b))"

definition minus_double :: "double \<Rightarrow> double \<Rightarrow> double" where
  "minus_double a b = Double (fl (val a - val b))"

definition times_double :: "double \<Rightarrow> double \<Rightarrow> double" where
  "times_double a b = Double (fl (val a * val b))"

definition divide_double :: "double \<Rightarrow> double \<Rightarrow> double" where
  "divide_double a b = Double (fl (val a / val b))"

definition inverse_double :: "double \<Rightarrow> double" where
  "inverse_double a = Double (fl (1 / val a))"

definition less_eq_double :: "double \<Rightarrow> double \<Rightarrow> bool" where
  "less_eq_double a b = (val a \<le> val b)"

definition less_double :: "double \<Rightarrow> double \<Rightarrow> bool" where
  "less_double a b = (val a < val b)"

instance ..

end

text \<open>\<^verbatim>\<open>float(i)\<close> of an integer, also where Python converts one in mixed arithmetic.\<close>

definition float_of_int :: "int \<Rightarrow> double" where
  "float_of_int i = Double (fl (of_int i))"

text \<open>A float operation is exact on its operands when rounding does not change the result.\<close>

definition exact_plus :: "double \<Rightarrow> double \<Rightarrow> bool" where
  "exact_plus a b = (val (a + b) = val a + val b)"

definition exact_minus :: "double \<Rightarrow> double \<Rightarrow> bool" where
  "exact_minus a b = (val (a - b) = val a - val b)"

type_synonym seconds = double

record segment =
  seg_file :: string
  seg_time :: "string option"
  seg_start :: seconds
  seg_end :: seconds
  seg_line :: string

text \<open>The arguments of one call of \<^verbatim>\<open>make_edl_segment\<close>.\<close>

record edl_row =
  edl_n :: string
  edl_time_in :: seconds
  edl_time_out :: seconds
  edl_rec_in :: seconds
  edl_rec_out :: seconds
  edl_full_name :: string
  edl_filename :: string
  edl_reel :: string
  edl_fps :: double

text \<open>One clip appended to the timeline track by \<^verbatim>\<open>make_otio\<close>.\<close>

record otio_clip =
  clip_name :: string
  target_url :: string
  clip_fps :: double
  available_duration :: double
  source_start :: double
  source_duration :: double

type_synonym cut = "string \<times> seconds \<times> seconds"

datatype event =
    Print string
  | DemoLine string seconds seconds
  | WriteEdl string "edl_row list"
  | WriteOtio string "otio_clip list"
  | WriteVideo string "cut list"
  | ConcatFiles string "string list"
  | RemoveFile string
  | CleanupLogs string

datatype error = TypeError | ValueError | KeyError | FileNotFoundError | RenderError

text \<open>
  The result of a call that can raise. \<open>Unmodelled\<close> marks an input on which the
  model says nothing about what the source does.
\<close>

datatype 'a result = Value 'a | Raises error | Unmodelled

datatype status = Returned | Exited int | Raised error

text \<open>
  What a call of \<^verbatim>\<open>videogrep\<close> leaves behind: what it printed and wrote, in
  order; the segment dicts as the run left them; and how the call ended.
\<close>

record run =
  events :: "event list"
  segments :: "segment list"
  ending :: status

subsection \<open>The environment: libraries and the file system\<close>

text \<open>
  Library and external code is a parameter of the model: the regular expression engine
  (\<open>re_search pattern line\<close> says whether \<^verbatim>\<open>re.search\<close> finds a match), the
  \<^verbatim>\<open>searcher\<close> module, \<^verbatim>\<open>random.shuffle\<close>, the ffmpeg and ffprobe
  subprocesses, the media toolkit (\<open>renders out cuts\<close> says how far cutting,
  concatenating and writing the clips gets in \<^verbatim>\<open>create_supercut\<close>), the composers
  for transcripts and caption tracks, which rest on audiogrep and on the vtt parser, and
  the file system (\<open>isfile\<close>, and \<open>read_text\<close> for what
  \<^verbatim>\<open>open(path, 'r').read()\<close> returns: the decoded text, line endings translated
  to line feeds). The other calls of external code are taken to succeed.
\<close>

datatype rendering = Written | CuttingRaises | ConcatenatingRaises | WritingRaises

record env =
  isfile :: "string \<Rightarrow> bool"
  read_text :: "string \<Rightarrow> string"
  re_search :: "string \<Rightarrow> string \<Rightarrow> bool"
  search_out :: "string \<Rightarrow> string \<Rightarrow> bool"
  hypernym_search :: "string \<Rightarrow> string \<Rightarrow> bool"
  shuffle :: "segment list \<Rightarrow> segment list"
  ffmpeg_fps :: "string \<Rightarrow> double option"
  ffprobe_duration :: "string \<Rightarrow> double"
  renders :: "string \<Rightarrow> cut list \<Rightarrow> rendering"
  transcript_composer :: "string list \<Rightarrow> string \<Rightarrow> string \<Rightarrow> segment list result"
  vtt_composer :: "string list \<Rightarrow> string \<Rightarrow> string \<Rightarrow> segment list result"

subsection \<open>Small string helpers\<close>

definition BATCH_SIZE :: nat where
  "BATCH_SIZE = 20"

definition usable_extensions :: "string list" where
  "usable_extensions = [''mp4'', ''avi'', ''mov'', ''mkv'', ''m4v'']"

definition quote :: string where
  "quote = [CHR 0x27]"

definition digit_char :: "nat \<Rightarrow> char" where
  "digit_char d = char_of (48 + d)"

text \<open>\<^verbatim>\<open>str(n)\<close> for a non-negative integer.\<close>

function str_nat :: "nat \<Rightarrow> string" where
  "str_nat n = (if n < 10 then [digit_char n] else str_nat (n div 10) @ [digit_char (n mod 10)])"
  by pat_completeness auto
termination
  by (relation "measure id") auto

declare str_nat.simps [simp del]

text \<open>\<^verbatim>\<open>s.zfill(w)\<close> for a string without a sign.\<close>

definition zfill :: "nat \<Rightarrow> string \<Rightarrow> string" where
  "zfill w s = replicate (w - length s) CHR ''0'' @ s"

subsection \<open>demo\_supercut\<close>

text \<open>
  The loop body of \<^verbatim>\<open>demo_supercut\<close> for index \<open>i\<close>. The state is the
  composition and what has been printed. \<open>start'\<close> is the local variable
  \<^verbatim>\<open>start\<close>; the formatted line is kept as its three arguments.
\<close>

definition demo_step :: "seconds \<Rightarrow> nat \<Rightarrow> segment list \<times> event list \<Rightarrow> segment list \<times> event list" where
  "demo_step padding i st =
     (let composition = fst st;
          c = composition ! i;
          start' = (if i > 0 \<and> seg_file (composition ! (i - 1)) = seg_file c
                       \<and> seg_start c < seg_end (composition ! (i - 1))
                    then seg_start c + padding else seg_start c)
      in (composition, snd st @ [DemoLine (seg_line c) start' (seg_end c)]))"

definition demo_supercut :: "segment list \<Rightarrow> seconds \<Rightarrow> segment list \<times> event list" where
  "demo_supercut composition padding =
     fold (demo_step padding) [0..<length composition] (composition, [])"

subsection \<open>create\_supercut\<close>

text \<open>
  The loop \<^verbatim>\<open>for (clip, nextclip) in zip(composition, composition[1:])\<close>. The
  \<^verbatim>\<open>nextclip\<close> of one iteration is the \<^verbatim>\<open>clip\<close> of the next, the same dict,
  so the recursion continues with the updated value.
\<close>

fun add_padding :: "seconds \<Rightarrow> segment list \<Rightarrow> segment list" where
  "add_padding padding (clip # nextclip # rest) =
     clip # add_padding padding
       ((if seg_file nextclip = seg_file clip \<and> seg_start nextclip < seg_end clip
         then nextclip\<lparr>seg_start := seg_start nextclip + padding\<rparr>
         else nextclip) # rest)"
| "add_padding padding composition = composition"

definition cuts_of :: "segment list \<Rightarrow> cut list" where
  "cuts_of composition = map (\<lambda>c. (seg_file c, seg_start c, seg_end c)) composition"

text \<open>
  \<^verbatim>\<open>create_supercut\<close> returns the segments as it leaves them, what it printed
  and wrote, and whether it returned (\<open>True\<close>) or the media toolkit raised.
\<close>

definition create_supercut :: "env \<Rightarrow> segment list \<Rightarrow> string \<Rightarrow> seconds \<Rightarrow> segment list \<times> event list \<times> bool" where
  "create_supercut e composition outputfile padding =
     (let (c1, demo) = demo_supercut composition padding;
          c2 = add_padding padding c1;
          ev = [Print ''[+] Creating clips.''] @ demo
      in case renders e outputfile (cuts_of c2) of
           CuttingRaises \<Rightarrow> (c2, ev, False)
         | ConcatenatingRaises \<Rightarrow> (c2, ev @ [Print ''[+] Concatenating clips.''], False)
         | WritingRaises \<Rightarrow>
             (c2, ev @ [Print ''[+] Concatenating clips.'', Print ''[+] Writing ouput file.''], False)
         | Written \<Rightarrow>
             (c2, ev @ [Print ''[+] Concatenating clips.'', Print ''[+] Writing ouput file.'',
                        WriteVideo outputfile (cuts_of c2)], True))"

subsection \<open>Python string operations\<close>

text \<open>
  \<^verbatim>\<open>str.strip()\<close> removes leading and trailing whitespace; the ASCII characters
  Python counts as whitespace are 0x09 to 0x0D, 0x1C to 0x1F and the space.
\<close>

definition is_space :: "char \<Rightarrow> bool" where
  "is_space c = (c \<in> set [CHR 0x09, CHR 0x0A, CHR 0x0B, CHR 0x0C, CHR 0x0D,
                            CHR 0x1C, CHR 0x1D, CHR 0x1E, CHR 0x1F, CHR 0x20])"

definition strip :: "string \<Rightarrow> string" where
  "strip s = rev (dropWhile is_space (rev (dropWhile is_space s)))"

definition is_digit :: "char \<Rightarrow> bool" where
  "is_digit c = (c \<in> set ''0123456789'')"

definition startswith :: "string \<Rightarrow> string \<Rightarrow> bool" where
  "startswith s sub = (take (length sub) s = sub)"

text \<open>\<open>contains s sub\<close> is \<^verbatim>\<open>s.find(sub) > -1\<close>.\<close>

fun contains :: "string \<Rightarrow> string \<Rightarrow> bool" where
  "contains [] sub = (sub = [])"
| "contains (c # cs) sub = (startswith (c # cs) sub \<or> contains cs sub)"

text \<open>
  \<^verbatim>\<open>s.split(sep)\<close> for a non-empty separator (every call site passes a literal);
  \<open>acc\<close> holds the current piece, reversed.
\<close>

function split_acc :: "string \<Rightarrow> string \<Rightarrow> string \<Rightarrow> string list" where
  "split_acc sep acc [] = [rev acc]"
| "split_acc sep acc (c # cs) =
     (if sep \<noteq> [] \<and> startswith (c # cs) sep
      then rev acc # split_acc sep [] (drop (length sep) (c # cs))
      else split_acc sep (c # acc) cs)"
  by pat_completeness auto
termination
  by (relation "measure (\<lambda>(sep, acc, s). length s)") auto

definition split :: "string \<Rightarrow> string \<Rightarrow> string list" where
  "split s sep = split_acc sep [] s"

text \<open>\<^verbatim>\<open>sep.join(parts)\<close>.\<close>

fun join :: "string \<Rightarrow> string list \<Rightarrow> string" where
  "join sep [] = []"
| "join sep [p] = p"
| "join sep (p # q # ps) = p @ sep @ join sep (q # ps)"

text \<open>\<^verbatim>\<open>s.replace(old, new)\<close> for a non-empty \<open>old\<close>.\<close>

function replace :: "string \<Rightarrow> string \<Rightarrow> string \<Rightarrow> string" where
  "replace [] old new = []"
| "replace (c # cs) old new =
     (if old \<noteq> [] \<and> startswith (c # cs) old
      then new @ replace (drop (length old) (c # cs)) old new
      else c # replace cs old new)"
  by pat_completeness auto
termination
  by (relation "measure (\<lambda>(s, old, new). length s)") auto

text \<open>
  \<^verbatim>\<open>str.splitlines()\<close>: a line ends at LF, CR, CR LF, VT, FF, FS, GS or RS, and
  no empty last line is produced. \<open>acc\<close> holds the current line, reversed.
\<close>

definition is_linebreak :: "char \<Rightarrow> bool" where
  "is_linebreak c = (c \<in> set [CHR 0x0A, CHR 0x0D, CHR 0x0B, CHR 0x0C, CHR 0x1C, CHR 0x1D, CHR 0x1E])"

fun splitlines_acc :: "string \<Rightarrow> string \<Rightarrow> string list" where
  "splitlines_acc acc [] = (if acc = [] then [] else [rev acc])"
| "splitlines_acc acc [c] = (if is_linebreak c then [rev acc] else [rev (c # acc)])"
| "splitlines_acc acc (c # d # cs) =
     (if c = CHR 0x0D \<and> d = CHR 0x0A then rev acc # splitlines_acc [] cs
      else if is_linebreak c then rev acc # splitlines_acc [] (d # cs)
      else splitlines_acc (c # acc) (d # cs))"

definition splitlines :: "string \<Rightarrow> string list" where
  "splitlines s = splitlines_acc [] s"

text \<open>\<^verbatim>\<open>str.lower()\<close> on ASCII letters.\<close>

definition lower_char :: "char \<Rightarrow> char" where
  "lower_char c = (let n = (of_char c :: nat) in if 65 \<le> n \<and> n \<le> 90 then char_of (n + 32) else c)"

definition lower :: "string \<Rightarrow> string" where
  "lower s = map lower_char s"

text \<open>
  \<^verbatim>\<open>os.path.splitext\<close> (POSIX): the extension starts at the last dot of the last
  path component, unless only dots precede it there.
\<close>

definition splitext :: "string \<Rightarrow> string \<times> string" where
  "splitext p =
     (let base = rev (takeWhile (\<lambda>c. c \<noteq> CHR ''/'') (rev p));
          dir = take (length p - length base) p;
          ext_rev = takeWhile (\<lambda>c. c \<noteq> CHR ''.'') (rev base);
          stem = take (length base - length ext_rev - 1) base
      in if length ext_rev < length base \<and> (\<exists>c \<in> set stem. c \<noteq> CHR ''.'')
         then (dir @ stem, CHR ''.'' # rev ext_rev)
         else (p, []))"

text \<open>
  \<^verbatim>\<open>int(s)\<close> and \<^verbatim>\<open>float(s)\<close> on a plain decimal literal with an optional
  sign, surrounding whitespace ignored. \<^verbatim>\<open>int\<close> raises ValueError on anything else
  except digit groups joined by underscores; those, and every other spelling that
  \<^verbatim>\<open>float\<close> accepts or rejects, are left outside the model (\<open>Unmodelled\<close>).
\<close>

definition digits_value :: "string \<Rightarrow> nat" where
  "digits_value ds = foldl (\<lambda>n c. 10 * n + ((of_char c :: nat) - 48)) 0 ds"

definition unsigned_part :: "string \<Rightarrow> string" where
  "unsigned_part s = (case s of [] \<Rightarrow> [] | c # cs \<Rightarrow> if c = CHR ''+'' \<or> c = CHR ''-'' then cs else s)"

definition sign_of :: "string \<Rightarrow> int" where
  "sign_of s = (case s of [] \<Rightarrow> 1 | c # cs \<Rightarrow> if c = CHR ''-'' then - 1 else 1)"

definition py_int :: "string \<Rightarrow> int result" where
  "py_int s =
     (let t = strip s; ds = unsigned_part t
      in if ds \<noteq> [] \<and> list_all is_digit ds then Value (sign_of t * int (digits_value ds))
         else if CHR ''_'' \<in> set ds then Unmodelled
         else Raises ValueError)"

definition py_float :: "string \<Rightarrow> double result" where
  "py_float s =
     (let t = strip s; ds = unsigned_part t
      in if ds \<noteq> [] \<and> list_all is_digit ds then Value (float_of_int (sign_of t * int (digits_value ds)))
         else Unmodelled)"

subsection \<open>Timestamps\<close>

fun bind :: "'a result \<Rightarrow> ('a \<Rightarrow> 'b result) \<Rightarrow> 'b result" where
  "bind (Value x) f = f x"
| "bind (Raises err) f = Raises err"
| "bind Unmodelled f = Unmodelled"

text \<open>
  \<^verbatim>\<open>convert_timestamp\<close>. Unpacking a split into the wrong number of names raises
  ValueError.
\<close>

definition convert_timestamp :: "string \<Rightarrow> seconds result" where
  "convert_timestamp timestamp =
     (case split (strip timestamp) '','' of
        [chunk, millis] \<Rightarrow>
          (case split chunk '':'' of
             [hours, minutes, seconds] \<Rightarrow>
               bind (py_int hours) (\<lambda>hours.
               bind (py_int minutes) (\<lambda>minutes.
               bind (py_int seconds) (\<lambda>seconds.
               bind (py_float millis) (\<lambda>millis.
                 Value (float_of_int (seconds + hours * 60 * 60 + minutes * 60)
                          + millis / float_of_int 1000)))))
           | _ \<Rightarrow> Raises ValueError)
      | _ \<Rightarrow> Raises ValueError)"

definition convert_timespan :: "string \<Rightarrow> (seconds \<times> seconds) result" where
  "convert_timespan timespan =
     (case split timespan ''-->'' of
        [start', end'] \<Rightarrow>
          bind (convert_timestamp start') (\<lambda>start'.
          bind (convert_timestamp end') (\<lambda>end'. Value (start', end')))
      | _ \<Rightarrow> Raises ValueError)"

subsection \<open>clean\_srt\<close>

text \<open>
  \<^verbatim>\<open>re.sub(r'^\d+[\n\r]', '', text, flags=re.MULTILINE)\<close>, scanning left to right.
  \<open>bol\<close> says whether \<^verbatim>\<open>^\<close> matches at the current position: at the start of
  the text and right after a line feed. Where it does and the digits there are followed
  by a line feed or a carriage return, digits and terminator are dropped; otherwise the
  character is kept.
\<close>

function sub_index :: "bool \<Rightarrow> string \<Rightarrow> string" where
  "sub_index bol [] = []"
| "sub_index bol (c # cs) =
     (let ds = takeWhile is_digit (c # cs); r = dropWhile is_digit (c # cs)
      in if bol \<and> ds \<noteq> [] \<and> r \<noteq> [] \<and> (hd r = CHR 0x0A \<or> hd r = CHR 0x0D)
         then sub_index (hd r = CHR 0x0A) (tl r)
         else c # sub_index (c = CHR 0x0A) cs)"
  by pat_completeness auto
termination
proof (relation "measure (\<lambda>(bol, s). length s)")
  show "wf (measure (\<lambda>(bol, s). length s))" by simp
next
  fix bol :: bool and c :: char and cs x xa
  assume "x = takeWhile is_digit (c # cs)" and "xa = dropWhile is_digit (c # cs)"
  then have "length (tl xa) \<le> length cs"
    using length_dropWhile_le [of is_digit "c # cs"] by (cases xa) auto
  then show "((hd xa = CHR 0x0A, tl xa), bol, c # cs) \<in> measure (\<lambda>(bol, s). length s)"
    by simp
next
  fix bol :: bool and c :: char and cs x xa
  show "((c = CHR 0x0A, cs), bol, c # cs) \<in> measure (\<lambda>(bol, s). length s)"
    by simp
qed

text \<open>
  The \<^verbatim>\<open>OrderedDict\<close>: an association list in insertion order. Assigning to a
  key that is present keeps its position.
\<close>

type_synonym ordered_dict = "(string \<times> string) list"

fun od_set :: "string \<Rightarrow> string \<Rightarrow> ordered_dict \<Rightarrow> ordered_dict" where
  "od_set k v [] = [(k, v)]"
| "od_set k v ((k', v') # rest) =
     (if k' = k then (k, v) # rest else (k', v') # od_set k v rest)"

text \<open>
  \<^verbatim>\<open>output[key] += x\<close>. The loop below only does this for a key it has assigned
  before, so the KeyError of a missing key cannot occur there.
\<close>

fun od_append :: "string \<Rightarrow> string \<Rightarrow> ordered_dict \<Rightarrow> ordered_dict" where
  "od_append k x [] = []"
| "od_append k x ((k', v') # rest) =
     (if k' = k then (k', v' @ x) # rest else (k', v') # od_append k x rest)"

fun clean_srt_loop :: "string \<Rightarrow> ordered_dict \<Rightarrow> string list \<Rightarrow> ordered_dict" where
  "clean_srt_loop key output [] = output"
| "clean_srt_loop key output (l # lines) =
     (let line = strip l
      in if contains line ''-->'' then clean_srt_loop line (od_set line [] output) lines
         else if key \<noteq> [] then clean_srt_loop key (od_append key (line @ '' '') output) lines
         else clean_srt_loop key output lines)"

definition clean_srt_text :: "string \<Rightarrow> ordered_dict" where
  "clean_srt_text text = clean_srt_loop [] [] (splitlines (sub_index True text))"

definition clean_srt :: "env \<Rightarrow> string \<Rightarrow> ordered_dict result" where
  "clean_srt e srt =
     (if isfile e srt then Value (clean_srt_text (read_text e srt)) else Raises FileNotFoundError)"

subsection \<open>Searching\<close>

text \<open>What \<^verbatim>\<open>search_line\<close> returns: a match object, the searcher's answer, or None.\<close>

datatype found = PyNone | Match | Answer bool

fun truthy :: "found \<Rightarrow> bool" where
  "truthy PyNone = False"
| "truthy Match = True"
| "truthy (Answer b) = b"

definition search_line :: "env \<Rightarrow> string \<Rightarrow> string \<Rightarrow> string \<Rightarrow> found" where
  "search_line e line search searchtype =
     (if searchtype = ''re'' \<or> searchtype = ''word''
      then (if re_search e search line then Match else PyNone)
      else if searchtype = ''pos'' then Answer (search_out e line search)
      else if searchtype = ''hyper'' then Answer (hypernym_search e line search)
      else PyNone)"

text \<open>\<^verbatim>\<open>get_subtitle_files\<close>; \<open>None\<close> is the \<^verbatim>\<open>False\<close> it returns when it found no file.\<close>

definition srt_name :: "string \<Rightarrow> string" where
  "srt_name f = join ''.'' (butlast (split f ''.'') @ [''srt''])"

definition get_subtitle_files :: "env \<Rightarrow> string list \<Rightarrow> string list option" where
  "get_subtitle_files e inputfile =
     (let srts = filter (isfile e) (map srt_name inputfile)
      in if length srts = 0 then None else Some srts)"

text \<open>
  The loop over \<^verbatim>\<open>usable_extensions\<close> in \<^verbatim>\<open>compose_from_srts\<close>: it does not
  stop at the first video file, so the last extension that exists wins.
\<close>

definition find_videofile :: "env \<Rightarrow> string \<Rightarrow> string option" where
  "find_videofile e srt =
     fold (\<lambda>ext found. let tempVideoFile = replace srt ''.srt'' (''.'' @ ext)
                        in if isfile e tempVideoFile then Some tempVideoFile else found)
          usable_extensions None"

text \<open>The loop over \<^verbatim>\<open>lines.keys()\<close>.\<close>

fun search_lines :: "env \<Rightarrow> string \<Rightarrow> string \<Rightarrow> string \<Rightarrow> ordered_dict \<Rightarrow> string list
    \<Rightarrow> segment list \<Rightarrow> segment list result" where
  "search_lines e search searchtype videofile lines [] composition = Value composition"
| "search_lines e search searchtype videofile lines (timespan # rest) composition =
     (case map_of lines timespan of
        None \<Rightarrow> Raises KeyError
      | Some text \<Rightarrow>
         (let line = strip text
          in if truthy (search_line e line search searchtype)
             then bind (convert_timespan timespan) (\<lambda>(start', end').
                    search_lines e search searchtype videofile lines rest
                      (composition @ [\<lparr>seg_file = videofile, seg_time = Some timespan,
                                        seg_start = start', seg_end = end', seg_line = line\<rparr>]))
             else search_lines e search searchtype videofile lines rest composition))"

text \<open>
  The loop over the subtitle files. What \<^verbatim>\<open>compose_from_srts\<close> prints is not part
  of the model, and with it the flag \<^verbatim>\<open>foundSearchTerm\<close>, which only selects a
  message.
\<close>

fun compose_loop :: "env \<Rightarrow> string \<Rightarrow> string \<Rightarrow> string list \<Rightarrow> segment list \<Rightarrow> segment list result" where
  "compose_loop e search searchtype [] composition = Value composition"
| "compose_loop e search searchtype (srt # srts) composition =
     bind (clean_srt e srt) (\<lambda>lines.
       case find_videofile e srt of
         Some videofile \<Rightarrow>
           if lines \<noteq> []
           then bind (search_lines e search searchtype videofile lines (map fst lines) composition)
                  (\<lambda>composition'. compose_loop e search searchtype srts composition')
           else compose_loop e search searchtype srts composition
       | None \<Rightarrow> compose_loop e search searchtype srts composition)"

text \<open>
  \<^verbatim>\<open>compose_from_srts\<close>. Its argument is what \<^verbatim>\<open>get_subtitle_files\<close> returned:
  iterating over \<^verbatim>\<open>False\<close> raises TypeError.
\<close>

definition compose_from_srts :: "env \<Rightarrow> string list option \<Rightarrow> string \<Rightarrow> string \<Rightarrow> segment list result" where
  "compose_from_srts e srts search searchtype =
     (case srts of
        None \<Rightarrow> Raises TypeError
      | Some files \<Rightarrow> compose_loop e search searchtype files [])"

subsection \<open>Interchange export\<close>

definition get_fps :: "env \<Rightarrow> string \<Rightarrow> double" where
  "get_fps e filename = (case ffmpeg_fps e filename of Some f \<Rightarrow> f | None \<Rightarrow> float_of_int 25)"

text \<open>
  \<^verbatim>\<open>make_edl_segment\<close>: the values it puts into the template. Rendering them as
  timecodes is the work of the \<^verbatim>\<open>Timecode\<close> class, which is not modelled.
\<close>

definition make_edl_segment :: "string \<Rightarrow> seconds \<Rightarrow> seconds \<Rightarrow> seconds \<Rightarrow> seconds \<Rightarrow> string \<Rightarrow> string \<Rightarrow> double \<Rightarrow> edl_row" where
  "make_edl_segment n time_in time_out rec_in rec_out full_name filename fps =
     \<lparr>edl_n = n, edl_time_in = time_in, edl_time_out = time_out,
      edl_rec_in = rec_in, edl_rec_out = rec_out, edl_full_name = full_name,
      edl_filename = filename,
      edl_reel = (if length full_name > 7 then take 7 full_name else full_name),
      edl_fps = fps\<rparr>"

text \<open>
  The loop of \<^verbatim>\<open>make_edl\<close>. Its state is the index, the cursor
  \<^verbatim>\<open>rec_in\<close> and the cache \<^verbatim>\<open>fpses\<close>; the result lists the blocks appended
  to \<^verbatim>\<open>out\<close>.
\<close>

fun make_edl_loop :: "env \<Rightarrow> nat \<Rightarrow> seconds \<Rightarrow> (string \<rightharpoonup> double) \<Rightarrow> segment list \<Rightarrow> edl_row list" where
  "make_edl_loop e index rec_in fpses [] = []"
| "make_edl_loop e index rec_in fpses (timestamp # timestamps) =
     (let fpses' = (case fpses (seg_file timestamp) of
                      None \<Rightarrow> fpses(seg_file timestamp \<mapsto> get_fps e (seg_file timestamp))
                    | Some f \<Rightarrow> fpses);
          fps = (case fpses' (seg_file timestamp) of Some f \<Rightarrow> f | None \<Rightarrow> float_of_int 25);
          n = zfill 4 (str_nat (index + 1));
          time_in = seg_start timestamp;
          time_out = seg_end timestamp;
          duration = time_out - time_in;
          rec_out = rec_in + duration;
          full_name = ''reel_'' @ n;
          filename = seg_file timestamp
      in make_edl_segment n time_in time_out rec_in rec_out full_name filename fps
           # make_edl_loop e (index + 1) rec_out fpses' timestamps)"

definition make_edl :: "env \<Rightarrow> segment list \<Rightarrow> string \<Rightarrow> event list" where
  "make_edl e timestamps name = [WriteEdl name (make_edl_loop e 0 0 Map.empty timestamps)]"

text \<open>The loop of \<^verbatim>\<open>make_otio\<close>; it never assigns to \<^verbatim>\<open>rec_in\<close>.\<close>

fun make_otio_loop :: "env \<Rightarrow> nat \<Rightarrow> (string \<rightharpoonup> double \<times> double) \<Rightarrow> segment list \<Rightarrow> otio_clip list" where
  "make_otio_loop e index filedata [] = []"
| "make_otio_loop e index filedata (timestamp # timestamps) =
     (let filedata' = (case filedata (seg_file timestamp) of
                         None \<Rightarrow> filedata(seg_file timestamp \<mapsto>
                                   (get_fps e (seg_file timestamp), ffprobe_duration e (seg_file timestamp)))
                       | Some d \<Rightarrow> filedata);
          (fps, file_duration) = (case filedata' (seg_file timestamp) of Some d \<Rightarrow> d | None \<Rightarrow> (float_of_int 25, 0));
          n = zfill 4 (str_nat (index + 1));
          time_in = seg_start timestamp;
          time_out = seg_end timestamp;
          duration = time_out - time_in
      in \<lparr>clip_name = ''reel_'' @ n, target_url = seg_file timestamp, clip_fps = fps,
          available_duration = file_duration * fps,
          source_start = time_in * fps, source_duration = duration * fps\<rparr>
           # make_otio_loop e (index + 1) filedata' timestamps)"

definition make_otio :: "env \<Rightarrow> segment list \<Rightarrow> string \<Rightarrow> event list" where
  "make_otio e timestamps name = [WriteOtio name (make_otio_loop e 0 Map.empty timestamps)]"

subsection \<open>Rendering in batches and as single clips\<close>

text \<open>
  The \<^verbatim>\<open>while\<close> loop of \<^verbatim>\<open>create_supercut_in_batches\<close>. A batch whose
  rendering raises is skipped by the bare \<^verbatim>\<open>except\<close>. The state is the segments,
  the events so far and \<^verbatim>\<open>batch_comp\<close>.
\<close>

function batch_loop :: "env \<Rightarrow> string \<Rightarrow> seconds \<Rightarrow> nat \<Rightarrow> nat
    \<Rightarrow> segment list \<times> event list \<times> string list \<Rightarrow> segment list \<times> event list \<times> string list" where
  "batch_loop e outputfile padding total_clips start_index st =
     (if start_index < total_clips
      then (let (composition, ev, batch_comp) = st;
                filename = outputfile @ ''.tmp'' @ str_nat start_index @ ''.mp4'';
                (batch, ev', ok) = create_supercut e
                    (take BATCH_SIZE (drop start_index composition)) filename padding;
                composition' = take start_index composition @ batch
                                 @ drop (start_index + BATCH_SIZE) composition
            in batch_loop e outputfile padding total_clips (start_index + BATCH_SIZE)
                 (composition', ev @ ev', if ok then batch_comp @ [filename] else batch_comp))
      else st)"
  by pat_completeness auto
termination
  by (relation "measure (\<lambda>(e, outputfile, padding, total_clips, start_index, st). total_clips - start_index)")
     (auto simp: BATCH_SIZE_def)

declare batch_loop.simps [simp del]

text \<open>
  When every batch failed \<^verbatim>\<open>batch_comp\<close> is empty, and concatenating no clips raises
  ValueError in the media toolkit.
\<close>

definition create_supercut_in_batches :: "env \<Rightarrow> segment list \<Rightarrow> string \<Rightarrow> seconds \<Rightarrow> segment list \<times> event list \<times> bool" where
  "create_supercut_in_batches e composition outputfile padding =
     (let (composition', ev, batch_comp) =
            batch_loop e outputfile padding (length composition) 0 (composition, [], [])
      in if batch_comp = [] then (composition', ev, False)
         else (composition', ev @ [ConcatFiles outputfile batch_comp] @ map RemoveFile batch_comp
                              @ [CleanupLogs outputfile], True))"

definition split_clips :: "segment list \<Rightarrow> string \<Rightarrow> event list" where
  "split_clips composition outputfile =
     (let (basename, ext) = splitext outputfile
      in Print ''[+] Writing ouput files.''
         # map (\<lambda>(i, clip). WriteVideo (basename @ ''_'' @ zfill 5 (str_nat i) @ ext) [clip])
               (enumerate 0 (cuts_of composition)))"

subsection \<open>videogrep\<close>

text \<open>The loop that applies padding and sync to every segment.\<close>

definition apply_padding_and_sync :: "seconds \<Rightarrow> seconds \<Rightarrow> segment list \<Rightarrow> segment list" where
  "apply_padding_and_sync sync padding composition =
     map (\<lambda>c. c\<lparr>seg_start := seg_start c + sync - padding,
                 seg_end := seg_end c + sync + padding\<rparr>) composition"

definition take_maxclips :: "int \<Rightarrow> segment list \<Rightarrow> segment list" where
  "take_maxclips maxclips composition =
     (if maxclips > 0 then take (nat maxclips) composition else composition)"

definition randomized :: "env \<Rightarrow> bool \<Rightarrow> segment list \<Rightarrow> segment list" where
  "randomized e randomize composition = (if randomize then shuffle e composition else composition)"

text \<open>The branch on \<^verbatim>\<open>test\<close> and on the extension of the output file.\<close>

definition output_stage :: "env \<Rightarrow> segment list \<Rightarrow> string \<Rightarrow> seconds \<Rightarrow> bool \<Rightarrow> bool \<Rightarrow> run" where
  "output_stage e composition outputfile padding test export_clips =
     (if test
      then (let (c, ev) = demo_supercut composition padding
            in \<lparr>events = ev, segments = c, ending = Returned\<rparr>)
      else (let ext = lower (snd (splitext outputfile));
                ev1 = (if ext = ''.edl'' then make_edl e composition outputfile else [])
            in if ext = ''.otio''
               then \<lparr>events = ev1 @ make_otio e composition outputfile,
                     segments = composition, ending = Returned\<rparr>
               else if export_clips
               then \<lparr>events = ev1 @ split_clips composition outputfile,
                     segments = composition, ending = Returned\<rparr>
               else if length composition > BATCH_SIZE
               then (let (c, ev, ok) = create_supercut_in_batches e composition outputfile padding
                     in \<lparr>events = ev1 @ [Print ''[+] Starting batch job.''] @ ev,
                         segments = c, ending = (if ok then Returned else Raised ValueError)\<rparr>)
               else (let (c, ev, ok) = create_supercut e composition outputfile padding
                     in \<lparr>events = ev1 @ ev, segments = c,
                         ending = (if ok then Returned else Raised RenderError)\<rparr>)))"

text \<open>
  The part of \<^verbatim>\<open>videogrep\<close> that follows the composers, from the test of
  \<^verbatim>\<open>len(composition) == 0\<close> on. \<open>padding\<close> and \<open>sync\<close> are in seconds here.
\<close>

definition process_composition :: "env \<Rightarrow> segment list \<Rightarrow> string \<Rightarrow> string \<Rightarrow> int \<Rightarrow> seconds
    \<Rightarrow> bool \<Rightarrow> bool \<Rightarrow> seconds \<Rightarrow> bool \<Rightarrow> run" where
  "process_composition e composition outputfile search maxclips padding test randomize sync export_clips =
     (if length composition = 0
      then \<lparr>events = [Print (''[!] Search term '' @ quote @ search @ quote @ '' was not found in any file.'')],
            segments = composition, ending = Exited 1\<rparr>
      else (let found = Print (''[+] Search term '' @ quote @ search @ quote @ '' was found in ''
                               @ str_nat (length composition) @ '' places.'');
                r = output_stage e
                      (randomized e randomize
                        (take_maxclips maxclips (apply_padding_and_sync sync padding composition)))
                      outputfile padding test export_clips
            in r\<lparr>events := found # events r\<rparr>))"

text \<open>The choice of the composer at the head of \<^verbatim>\<open>videogrep\<close>.\<close>

definition compose :: "env \<Rightarrow> string list \<Rightarrow> string \<Rightarrow> string \<Rightarrow> bool \<Rightarrow> bool \<Rightarrow> segment list result" where
  "compose e inputfile search searchtype use_transcript use_vtt =
     (if use_transcript then transcript_composer e inputfile search searchtype
      else if use_vtt then vtt_composer e inputfile search searchtype
      else compose_from_srts e (get_subtitle_files e inputfile) search searchtype)"

text \<open>
  \<^verbatim>\<open>videogrep\<close>; \<open>padding\<close> and \<open>sync\<close> are in milliseconds, as the floats that
  the division by \<^verbatim>\<open>1000.0\<close> makes of them. \<open>None\<close> stands for a composer input
  outside the model.
\<close>

definition videogrep :: "env \<Rightarrow> string list \<Rightarrow> string \<Rightarrow> string \<Rightarrow> string \<Rightarrow> int \<Rightarrow> double
    \<Rightarrow> bool \<Rightarrow> bool \<Rightarrow> double \<Rightarrow> bool \<Rightarrow> bool \<Rightarrow> bool \<Rightarrow> run option" where
  "videogrep e inputfile outputfile search searchtype maxclips padding test randomize sync
             use_transcript use_vtt export_clips =
     (case compose e inputfile search searchtype use_transcript use_vtt of
        Unmodelled \<Rightarrow> None
      | Raises err \<Rightarrow> Some \<lparr>events = [], segments = [], ending = Raised err\<rparr>
      | Value composition \<Rightarrow>
          Some (process_composition e composition outputfile search maxclips
                  (padding / float_of_int 1000) test randomize (sync / float_of_int 1000)
                  export_clips))"

subsection \<open>Well-formed subtitle files\<close>

text \<open>
  The shape of a subtitle file, used to state what \<^verbatim>\<open>clean_srt\<close> makes of one. A
  cue block is a line with the numeric index, a line with the time span, the text
  lines and an empty line, each ended by a line feed (text mode reading has translated
  the line endings). A line is plain when it holds no line break character. In a
  well-formed file no text line holds an arrow and no two cues have the same time span.
  \<open>cue_entry\<close> is the dictionary entry expected for a cue: the stripped time span and the
  stripped text lines, each followed by a space. A text line of digits only is lost, as
  the substitution that removes the index lines removes it too.
\<close>

record cue =
  cue_index :: string
  cue_span :: string
  cue_lines :: "string list"

definition numeric :: "string \<Rightarrow> bool" where
  "numeric l = (l \<noteq> [] \<and> list_all is_digit l)"

definition plain_line :: "string \<Rightarrow> bool" where
  "plain_line l = list_all (\<lambda>c. \<not> is_linebreak c) l"

definition wellformed_cue :: "cue \<Rightarrow> bool" where
  "wellformed_cue c =
     (numeric (cue_index c)
      \<and> plain_line (cue_span c) \<and> contains (strip (cue_span c)) ''-->''
      \<and> list_all (\<lambda>l. plain_line l \<and> \<not> contains (strip l) ''-->'') (cue_lines c))"

definition text_of_lines :: "string list \<Rightarrow> string" where
  "text_of_lines ls = concat (map (\<lambda>l. l @ [CHR 0x0A]) ls)"

definition block_lines :: "cue \<Rightarrow> string list" where
  "block_lines c = cue_index c # cue_span c # cue_lines c @ [[]]"

definition cue_block :: "cue \<Rightarrow> string" where
  "cue_block c = text_of_lines (block_lines c)"

definition srt_text :: "cue list \<Rightarrow> string" where
  "srt_text cues = concat (map cue_block cues)"

definition wellformed_srt :: "cue list \<Rightarrow> bool" where
  "wellformed_srt cues =
     (list_all wellformed_cue cues \<and> distinct (map (\<lambda>c. strip (cue_span c)) cues))"

definition cue_entry :: "cue \<Rightarrow> string \<times> string" where
  "cue_entry c =
     (strip (cue_span c),
      concat (map (\<lambda>l. strip l @ '' '') (filter (\<lambda>l. \<not> numeric l) (cue_lines c) @ [[]])))"

subsection \<open>Comparing a segment before and after an operation\<close>

text \<open>
  \<open>same_but_start padding a b\<close>: segment \<open>a\<close> is segment \<open>b\<close> except that its start may
  have been advanced by \<open>padding\<close>.
\<close>

definition same_but_start :: "seconds \<Rightarrow> segment \<Rightarrow> segment \<Rightarrow> bool" where
  "same_but_start padding a b =
     (seg_file a = seg_file b \<and> seg_time a = seg_time b \<and> seg_end a = seg_end b
      \<and> seg_line a = seg_line b
      \<and> (seg_start a = seg_start b \<or> seg_start a = seg_start b + padding))"

subsection \<open>A small run used to exercise the theorems\<close>

definition example_srt :: string where
  "example_srt =
     ''1'' @ [CHR 0x0A] @ ''00:00:01,000 --> 00:00:02,000'' @ [CHR 0x0A] @ ''hello world'' @ [CHR 0x0A]
     @ [CHR 0x0A]
     @ ''2'' @ [CHR 0x0A] @ ''00:00:05,000 --> 00:00:06,500'' @ [CHR 0x0A] @ ''hello there'' @ [CHR 0x0A]"

definition clip :: "string \<Rightarrow> rat \<Rightarrow> rat \<Rightarrow> string \<Rightarrow> segment" where
  "clip f s t l =
     \<lparr>seg_file = f, seg_time = None, seg_start = Double s, seg_end = Double t, seg_line = l\<rparr>"

text \<open>Two cues of one file, half a second apart, and a third from another file.\<close>

definition example_composition :: "segment list" where
  "example_composition =
     [clip ''talk.mp4'' 1 2 ''hello world'', clip ''talk.mp4'' (5/2) (7/2) ''hello there'',
      clip ''other.mp4'' 0 4 ''hello again'']"

text \<open>
  One video \<^verbatim>\<open>talk.mp4\<close> with its subtitle file; a pattern without special
  characters matches where it occurs in the line; the shuffle reverses; the transcript
  composer finds the three segments above and the caption composer nothing.
\<close>

definition example_env :: env where
  "example_env =
     \<lparr>isfile = (\<lambda>p. p = ''talk.srt'' \<or> p = ''talk.mp4''),
      read_text = (\<lambda>p. if p = ''talk.srt'' then example_srt else []),
      re_search = (\<lambda>pattern l. contains l pattern),
      search_out = (\<lambda>l pattern. False),
      hypernym_search = (\<lambda>l pattern. False),
      shuffle = rev,
      ffmpeg_fps = (\<lambda>f. None),
      ffprobe_duration = (\<lambda>f. 0),
      renders = (\<lambda>out cs. Written),
      transcript_composer = (\<lambda>fs pattern t. Value example_composition),
      vtt_composer = (\<lambda>fs pattern t. Value [])\<rparr>"

definition example_cues :: "cue list" where
  "example_cues =
     [\<lparr>cue_index = ''1'', cue_span = ''00:00:01,000 --> 00:00:02,000'', cue_lines = [''hello world'']\<rparr>,
      \<lparr>cue_index = ''2'', cue_span = ''00:00:05,000 --> 00:00:06,500'', cue_lines = [''hello'', ''there'']\<rparr>]"

section \<open>Properties\<close>

subsection \<open>Rounding\<close>

lemma rne_of_int: "rne (of_int r) = r"
  by (simp add: rne_def)

lemma rne_bounds: "\<lfloor>q\<rfloor> \<le> rne q \<and> rne q \<le> \<lfloor>q\<rfloor> + 1"
  by (auto simp: rne_def Let_def)

lemma pow2_pos: "(0::rat) < 2 powi k"
  by simp

lemma div_bounds:
  fixes a b :: int
  assumes "2 ^ i \<le> a" "a < 2 ^ j" "2 ^ m \<le> b" "b < 2 ^ n"
  shows "(2::rat) powi (int i - int n) < of_int a / of_int b"
    and "of_int a / of_int b < (2::rat) powi (int j - int m)"
proof -
  have bpos: "(0::rat) < of_int b"
    using assms(3) by (smt (verit) of_int_0_less_iff zero_less_power)
  have apos: "(0::rat) < of_int a"
    using assms(1) by (smt (verit) of_int_0_less_iff zero_less_power)
  have A1: "(2::rat) ^ i \<le> of_int a" using assms(1) by (metis of_int_le_iff of_int_numeral of_int_power)
  have A2: "of_int a < (2::rat) ^ j" using assms(2) by (metis of_int_less_iff of_int_numeral of_int_power)
  have B1: "(2::rat) ^ m \<le> of_int b" using assms(3) by (metis of_int_le_iff of_int_numeral of_int_power)
  have B2: "of_int b < (2::rat) ^ n" using assms(4) by (metis of_int_less_iff of_int_numeral of_int_power)
  have "(2::rat) powi (int i - int n) = 2 ^ i / 2 ^ n"
    by (simp add: power_int_diff)
  also have "\<dots> < of_int a / of_int b"
    using A1 B2 bpos apos by (intro frac_less2) auto
  finally show "(2::rat) powi (int i - int n) < of_int a / of_int b" .
  have "of_int a / of_int b < (2::rat) ^ j / 2 ^ m"
    using A2 B1 bpos apos by (intro frac_less) auto
  also have "\<dots> = (2::rat) powi (int j - int m)"
    by (simp add: power_int_diff)
  finally show "of_int a / of_int b < (2::rat) powi (int j - int m)" .
qed

lemma binade_bounds:
  assumes "0 < x"
  shows "2 powi (binade x) \<le> x \<and> x < 2 powi (binade x + 1)"
proof -
  obtain a b where q: "quotient_of x = (a, b)" by (cases "quotient_of x")
  then have b: "0 < b" and x: "x = of_int a / of_int b"
    using quotient_of_denom_pos quotient_of_div by auto
  with assms have a: "0 < a" by (simp add: zero_less_divide_iff)
  let ?la = "bitlen a" and ?lb = "bitlen b"
  from bitlen_bounds [OF a] have a1: "2 ^ nat (?la - 1) \<le> a" and a2: "a < 2 ^ nat ?la" by auto
  from bitlen_bounds [OF b] have b1: "2 ^ nat (?lb - 1) \<le> b" and b2: "b < 2 ^ nat ?lb" by auto
  have la: "1 \<le> ?la" using a by (auto simp: bitlen_alt_def)
  have lb: "1 \<le> ?lb" using b by (auto simp: bitlen_alt_def)
  from div_bounds [OF a1 a2 b1 b2]
  have lo: "(2::rat) powi (?la - ?lb - 1) < x" and hi: "x < (2::rat) powi (?la - ?lb + 1)"
    using la lb unfolding x by (simp_all add: algebra_simps)
  show ?thesis
    using lo hi q by (auto simp: binade_def Let_def not_le)
qed

lemma binade_unique:
  assumes "2 powi k \<le> x" "x < 2 powi (k + 1)"
  shows "binade x = k"
proof -
  have "0 < x" using assms(1) pow2_pos [of k] by linarith
  from binade_bounds [OF this] have 1: "2 powi (binade x) \<le> x" and 2: "x < 2 powi (binade x + 1)" by auto
  have lt: "m < n" if "(2::rat) powi m < 2 powi n" for m n :: int
  proof (rule ccontr)
    assume "\<not> m < n"
    then have "n \<le> m" by simp
    from power_int_increasing [OF this, of "2::rat"] that show False by simp
  qed
  have "(2::rat) powi k < 2 powi (binade x + 1)" using assms(1) 2 by simp
  then have "k < binade x + 1" by (rule lt)
  moreover have "(2::rat) powi (binade x) < 2 powi (k + 1)" using assms(2) 1 by simp
  then have "binade x < k + 1" by (rule lt)
  ultimately show ?thesis by simp
qed


lemma fl_pos_exact:
  assumes "2 powi k \<le> of_int r * (2::rat) powi (k - 52)"
    and "of_int r * (2::rat) powi (k - 52) < 2 powi (k + 1)"
  shows "fl_pos (of_int r * 2 powi (k - 52)) = of_int r * 2 powi (k - 52)"
proof -
  have b: "binade (of_int r * 2 powi (k - 52)) = k"
    using assms by (rule binade_unique)
  have "of_int r * (2::rat) powi (k - 52) / 2 powi (k - 52) = of_int r"
    by simp
  then show ?thesis
    unfolding fl_pos_def b Let_def by (simp only: rne_of_int)
qed

lemma fl_pos_idem:
  assumes "0 < x"
  shows "0 < fl_pos x \<and> fl_pos (fl_pos x) = fl_pos x"
proof -
  define e where "e = binade x"
  define u :: rat where "u = 2 powi (e - 52)"
  define r where "r = rne (x / u)"
  have u: "0 < u" by (simp add: u_def)
  from binade_bounds [OF assms] have lo: "2 powi e \<le> x" and hi: "x < 2 powi (e + 1)"
    by (simp_all add: e_def)
  have e52: "(2::rat) powi e = 2 ^ 52 * u" and e53: "(2::rat) powi (e + 1) = 2 ^ 53 * u"
    by (simp_all add: u_def power_int_diff power_int_add)
  have qlo: "2 ^ 52 \<le> x / u" using lo u unfolding e52 by (simp add: pos_le_divide_eq)
  have qhi: "x / u < 2 ^ 53" using hi u unfolding e53 by (simp add: pos_divide_less_eq)
  have flo: "2 ^ 52 \<le> \<lfloor>x / u\<rfloor>" using qlo by (simp add: le_floor_iff)
  have fhi: "\<lfloor>x / u\<rfloor> < 2 ^ 53" using qhi by (simp add: floor_less_iff)
  from rne_bounds [of "x / u"] have rlo: "2 ^ 52 \<le> r" and rhi: "r \<le> 2 ^ 53"
    using flo fhi unfolding r_def by linarith+
  have rlo': "(2::rat) ^ 52 \<le> of_int r"
    using rlo by (metis of_int_le_iff of_int_numeral of_int_power)
  have y: "fl_pos x = of_int r * u"
    by (simp add: fl_pos_def e_def u_def r_def Let_def)
  have ypos: "0 < fl_pos x" using rlo u unfolding y by (simp add: zero_less_mult_iff)
  show ?thesis
  proof (cases "r = 2 ^ 53")
    case True
    have y2: "fl_pos x = of_int (2 ^ 52) * 2 powi (e + 1 - 52)"
      unfolding y True u_def by (simp add: power_int_diff power_int_add)
    have "fl_pos (of_int (2 ^ 52) * 2 powi (e + 1 - 52)) = of_int (2 ^ 52) * 2 powi (e + 1 - 52)"
      by (rule fl_pos_exact) (simp_all add: power_int_diff power_int_add)
    then show ?thesis using ypos y2 by simp
  next
    case False
    with rhi have r53: "r < 2 ^ 53" by simp
    then have r53': "of_int r < (2::rat) ^ 53"
      by (metis of_int_less_iff of_int_numeral of_int_power)
    have "fl_pos (of_int r * 2 powi (e - 52)) = of_int r * 2 powi (e - 52)"
    proof (rule fl_pos_exact)
      show "2 powi e \<le> of_int r * (2::rat) powi (e - 52)"
        unfolding e52 u_def [symmetric] using rlo' u by simp
      show "of_int r * (2::rat) powi (e - 52) < 2 powi (e + 1)"
        unfolding e53 u_def [symmetric] using r53' u by simp
    qed
    then show ?thesis using ypos y by (simp add: u_def)
  qed
qed

lemma fl_idem: "fl (fl x) = fl x"
proof -
  consider "x = 0" | "0 < x" | "x < 0" by linarith
  then show ?thesis
  proof cases
    case 1
    then show ?thesis by (simp add: fl_def)
  next
    case 2
    with fl_pos_idem [of x] show ?thesis by (simp add: fl_def)
  next
    case 3
    then have "0 < - x" by simp
    from fl_pos_idem [OF this] 3 show ?thesis by (simp add: fl_def)
  qed
qed

lemma double_zero_plus_minus: "0 + (a - b) = (a - b :: double)"
  by (simp add: plus_double_def minus_double_def zero_double_def fl_idem)

subsection \<open>The record timeline of the EDL\<close>

lemma make_edl_loop_length: "length (make_edl_loop e index r f ts) = length ts"
  by (induction ts arbitrary: index r f) (auto simp: Let_def)

lemma make_edl_loop_rec_in_hd:
  "edl_rec_in (make_edl_loop e index r f (t # ts) ! 0) = r"
  by (simp add: Let_def make_edl_segment_def)

lemma make_edl_loop_rec_out:
  "i < length ts \<Longrightarrow> edl_rec_out (make_edl_loop e index r f ts ! i)
     = edl_rec_in (make_edl_loop e index r f ts ! i) + (seg_end (ts ! i) - seg_start (ts ! i))"
proof (induction ts arbitrary: index r f i)
  case Nil
  then show ?case by simp
next
  case (Cons t ts)
  show ?case
  proof (cases i)
    case 0
    then show ?thesis by (simp add: Let_def make_edl_segment_def)
  next
    case (Suc j)
    with Cons.prems have "j < length ts" by simp
    from Cons.IH [OF this] show ?thesis using Suc by (simp add: Let_def)
  qed
qed

lemma make_edl_loop_contiguous:
  "Suc i < length ts \<Longrightarrow> edl_rec_in (make_edl_loop e index r f ts ! Suc i)
     = edl_rec_out (make_edl_loop e index r f ts ! i)"
proof (induction ts arbitrary: index r f i)
  case Nil
  then show ?case by simp
next
  case (Cons t ts)
  show ?case
  proof (cases i)
    case 0
    with Cons.prems obtain u us where ts: "ts = u # us" by (cases ts) auto
    show ?thesis using 0 unfolding ts by (simp add: Let_def make_edl_segment_def)
  next
    case (Suc j)
    with Cons.prems have "Suc j < length ts" by simp
    from Cons.IH [OF this] show ?thesis using Suc by (simp add: Let_def)
  qed
qed

text \<open>
  Claim C4. \<^verbatim>\<open>make_edl\<close> writes one block per segment. The record-in of the first
  block is 0, the record-out of every block is its record-in plus the duration
  \<^verbatim>\<open>end - start\<close> of its segment, and the record-in of block \<open>i + 1\<close> is the record-out
  of block \<open>i\<close>; so the record-out of the first block is the duration of the first
  segment.
\<close>

theorem edl_record_timeline_contiguous:
  "make_edl e composition name = [WriteEdl name (make_edl_loop e 0 0 Map.empty composition)]
   \<and> length (make_edl_loop e 0 0 Map.empty composition) = length composition
   \<and> (\<forall>i. i < length composition \<longrightarrow>
         edl_rec_out (make_edl_loop e 0 0 Map.empty composition ! i)
           = edl_rec_in (make_edl_loop e 0 0 Map.empty composition ! i)
             + (seg_end (composition ! i) - seg_start (composition ! i)))
   \<and> (\<forall>i. Suc i < length composition \<longrightarrow>
         edl_rec_in (make_edl_loop e 0 0 Map.empty composition ! Suc i)
           = edl_rec_out (make_edl_loop e 0 0 Map.empty composition ! i))
   \<and> (composition \<noteq> [] \<longrightarrow>
         edl_rec_in (make_edl_loop e 0 0 Map.empty composition ! 0) = 0
         \<and> edl_rec_out (make_edl_loop e 0 0 Map.empty composition ! 0)
             = seg_end (composition ! 0) - seg_start (composition ! 0))"
proof -
  have first: "edl_rec_in (make_edl_loop e 0 0 Map.empty composition ! 0) = 0
               \<and> edl_rec_out (make_edl_loop e 0 0 Map.empty composition ! 0)
                   = seg_end (composition ! 0) - seg_start (composition ! 0)"
    if "composition \<noteq> []"
  proof -
    from that obtain t ts where c: "composition = t # ts" by (cases composition) auto
    have "0 < length composition" using that by simp
    from make_edl_loop_rec_out [OF this, of e 0 0 Map.empty]
    show ?thesis using make_edl_loop_rec_in_hd [of e 0 0 Map.empty t ts] unfolding c
      by (simp add: double_zero_plus_minus)
  qed
  show ?thesis
    using first
    by (simp add: make_edl_def make_edl_loop_length make_edl_loop_rec_out make_edl_loop_contiguous
        double_zero_plus_minus)
qed

theorem edl_record_timeline_contiguous_witness:
  "example_composition \<noteq> [] \<and> Suc 1 < length example_composition
   \<and> edl_rec_in (make_edl_loop example_env 0 0 Map.empty example_composition ! 0) = 0
   \<and> edl_rec_out (make_edl_loop example_env 0 0 Map.empty example_composition ! 0) = Double 1
   \<and> edl_rec_in (make_edl_loop example_env 0 0 Map.empty example_composition ! 1) = Double 1
   \<and> edl_rec_out (make_edl_loop example_env 0 0 Map.empty example_composition ! 1) = Double 2
   \<and> edl_rec_in (make_edl_loop example_env 0 0 Map.empty example_composition ! Suc 1) = Double 2
   \<and> edl_rec_out (make_edl_loop example_env 0 0 Map.empty example_composition ! Suc 1) = Double 6"
proof -
  have ne: "example_composition \<noteq> []" and len: "length example_composition = 3"
    by (simp_all add: example_composition_def)
  have vals: "seg_end (example_composition ! 0) - seg_start (example_composition ! 0) = Double 1"
    "seg_end (example_composition ! 1) - seg_start (example_composition ! 1) = Double 1"
    "seg_end (example_composition ! Suc 1) - seg_start (example_composition ! Suc 1) = Double 4"
    by code_simp+
  have sums: "Double 1 + Double 1 = Double 2" "Double 2 + Double 4 = Double 6"
    by code_simp+
  note t = edl_record_timeline_contiguous [of example_env example_composition "''cut.edl''"]
  from t ne have r0: "edl_rec_in (make_edl_loop example_env 0 0 Map.empty example_composition ! 0) = 0"
    and o0: "edl_rec_out (make_edl_loop example_env 0 0 Map.empty example_composition ! 0) = Double 1"
    using vals by simp_all
  from t have step: "\<And>i. Suc i < 3 \<Longrightarrow>
         edl_rec_in (make_edl_loop example_env 0 0 Map.empty example_composition ! Suc i)
           = edl_rec_out (make_edl_loop example_env 0 0 Map.empty example_composition ! i)"
    and out: "\<And>i. i < 3 \<Longrightarrow>
         edl_rec_out (make_edl_loop example_env 0 0 Map.empty example_composition ! i)
           = edl_rec_in (make_edl_loop example_env 0 0 Map.empty example_composition ! i)
             + (seg_end (example_composition ! i) - seg_start (example_composition ! i))"
    unfolding len by blast+
  have r1: "edl_rec_in (make_edl_loop example_env 0 0 Map.empty example_composition ! 1) = Double 1"
    using step [of 0] o0 by simp
  have o1: "edl_rec_out (make_edl_loop example_env 0 0 Map.empty example_composition ! 1) = Double 2"
    using out [of 1] r1 vals sums by simp
  have r2: "edl_rec_in (make_edl_loop example_env 0 0 Map.empty example_composition ! Suc 1) = Double 2"
    using step [of 1] o1 by simp
  have o2: "edl_rec_out (make_edl_loop example_env 0 0 Map.empty example_composition ! Suc 1) = Double 6"
    using out [of "Suc 1"] r2 vals sums by simp
  show ?thesis using ne len r0 o0 r1 o1 r2 o2 by simp
qed

subsection \<open>demo\_supercut leaves the composition alone\<close>

lemma demo_fold:
  "fold (demo_step p) is (c, acc) =
     (c, acc @ map (\<lambda>i. DemoLine (seg_line (c ! i))
                   (if 0 < i \<and> seg_file (c ! (i - 1)) = seg_file (c ! i)
                         \<and> seg_start (c ! i) < seg_end (c ! (i - 1))
                    then seg_start (c ! i) + p else seg_start (c ! i))
                   (seg_end (c ! i))) is)"
  by (induction "is" arbitrary: acc) (simp_all add: demo_step_def Let_def)

lemma demo_supercut_fst: "fst (demo_supercut c p) = c"
  by (simp add: demo_supercut_def demo_fold)

lemma create_supercut_fst: "fst (create_supercut e c out p) = add_padding p c"
proof -
  obtain ev where "demo_supercut c p = (c, ev)"
    using demo_supercut_fst [of c p] by (cases "demo_supercut c p") auto
  then show ?thesis by (simp add: create_supercut_def Let_def split: rendering.splits)
qed

text \<open>
  Claim C9. \<^verbatim>\<open>demo_supercut\<close> returns the composition it was given, unchanged in
  every field of every segment. The padding it adds to the start of an overlapping
  segment goes into the printed line only. The demo path of \<^verbatim>\<open>videogrep\<close>
  therefore leaves the segments as the adjustment, truncation and shuffle made them.
\<close>

theorem demo_supercut_never_mutates:
  "fst (demo_supercut composition padding) = composition
   \<and> snd (demo_supercut composition padding) =
       map (\<lambda>i. DemoLine (seg_line (composition ! i))
                  (if 0 < i \<and> seg_file (composition ! (i - 1)) = seg_file (composition ! i)
                        \<and> seg_start (composition ! i) < seg_end (composition ! (i - 1))
                   then seg_start (composition ! i) + padding else seg_start (composition ! i))
                  (seg_end (composition ! i)))
           [0..<length composition]
   \<and> segments (output_stage e composition outputfile padding True export_clips) = composition"
proof -
  have d: "demo_supercut composition padding =
       (composition, map (\<lambda>i. DemoLine (seg_line (composition ! i))
                  (if 0 < i \<and> seg_file (composition ! (i - 1)) = seg_file (composition ! i)
                        \<and> seg_start (composition ! i) < seg_end (composition ! (i - 1))
                   then seg_start (composition ! i) + padding else seg_start (composition ! i))
                  (seg_end (composition ! i)))
           [0..<length composition])"
    by (simp add: demo_supercut_def demo_fold)
  show ?thesis unfolding d by (simp add: output_stage_def d)
qed

subsection \<open>Overlap correction\<close>

lemma add_padding_length: "length (add_padding p xs) = length xs"
  by (induction p xs rule: add_padding.induct) auto

lemma add_padding_hd: "add_padding p (x # xs) ! 0 = x"
  by (cases xs) auto

lemma add_padding_nth_Suc:
  "Suc i < length xs \<Longrightarrow>
   add_padding p xs ! Suc i =
     (if seg_file (xs ! Suc i) = seg_file (xs ! i) \<and> seg_start (xs ! Suc i) < seg_end (xs ! i)
      then (xs ! Suc i)\<lparr>seg_start := seg_start (xs ! Suc i) + p\<rparr>
      else xs ! Suc i)"
proof (induction p xs arbitrary: i rule: add_padding.induct)
  case (1 padding clip nextclip rest)
  define n' where "n' = (if seg_file nextclip = seg_file clip \<and> seg_start nextclip < seg_end clip
         then nextclip\<lparr>seg_start := seg_start nextclip + padding\<rparr> else nextclip)"
  have unf: "add_padding padding (clip # nextclip # rest) = clip # add_padding padding (n' # rest)"
    by (simp add: n'_def)
  have n'_file: "seg_file n' = seg_file nextclip" and n'_end: "seg_end n' = seg_end nextclip"
    by (simp_all add: n'_def)
  show ?case
  proof (cases i)
    case 0
    then show ?thesis unfolding unf by (simp add: add_padding_hd n'_def)
  next
    case (Suc j)
    with "1.prems" have j: "Suc j < length (n' # rest)" by simp
    have ih: "add_padding padding (n' # rest) ! Suc j =
       (if seg_file ((n' # rest) ! Suc j) = seg_file ((n' # rest) ! j)
            \<and> seg_start ((n' # rest) ! Suc j) < seg_end ((n' # rest) ! j)
        then ((n' # rest) ! Suc j)\<lparr>seg_start := seg_start ((n' # rest) ! Suc j) + padding\<rparr>
        else (n' # rest) ! Suc j)"
      using "1.IH" [folded n'_def, OF j] .
    show ?thesis
    proof (cases j)
      case 0
      then show ?thesis using ih Suc unfolding unf by (simp add: n'_file n'_end)
    next
      case (Suc k)
      then show ?thesis using ih \<open>i = Suc j\<close> unfolding unf by simp
    qed
  qed
qed simp_all

lemma add_padding_seg_end: "i < length xs \<Longrightarrow> seg_end (add_padding p xs ! i) = seg_end (xs ! i)"
proof (cases i)
  case 0
  assume "i < length xs"
  with 0 obtain y ys where "xs = y # ys" by (cases xs) auto
  then show ?thesis using 0 by (simp add: add_padding_hd)
next
  case (Suc j)
  assume "i < length xs"
  then show ?thesis using Suc by (simp add: add_padding_nth_Suc)
qed

text \<open>
  Claim C1, as the code has it. Take two adjacent segments of the same source file with
  \<open>next.start < prev.end\<close> before the correction loop of \<^verbatim>\<open>create_supercut\<close>. The loop
  sets \<open>next.start\<close> to the float sum \<open>next.start + padding\<close> and leaves \<open>prev.end\<close> alone.
  So \<open>next.start \<ge> prev.end\<close> holds afterwards exactly when that sum, as the float
  addition rounds it, is at least \<open>prev.end\<close>.
\<close>

theorem overlap_correction_advances_by_padding:
  assumes "Suc i < length composition"
    and "seg_file (composition ! Suc i) = seg_file (composition ! i)"
    and "seg_start (composition ! Suc i) < seg_end (composition ! i)"
  shows "fst (create_supercut e composition outputfile padding) = add_padding padding composition
    \<and> seg_start (add_padding padding composition ! Suc i) = seg_start (composition ! Suc i) + padding
    \<and> seg_end (add_padding padding composition ! i) = seg_end (composition ! i)
    \<and> (seg_end (add_padding padding composition ! i) \<le> seg_start (add_padding padding composition ! Suc i))
        = (seg_end (composition ! i) \<le> seg_start (composition ! Suc i) + padding)"
proof -
  have s: "seg_start (add_padding padding composition ! Suc i) = seg_start (composition ! Suc i) + padding"
    using assms by (simp add: add_padding_nth_Suc)
  have "i < length composition" using assms(1) by simp
  then have e: "seg_end (add_padding padding composition ! i) = seg_end (composition ! i)"
    by (rule add_padding_seg_end)
  show ?thesis unfolding s e by (simp add: create_supercut_fst)
qed

theorem overlap_correction_advances_by_padding_witness:
  "Suc 0 < length (apply_padding_and_sync 0 (Double 3) example_composition)
   \<and> seg_file (apply_padding_and_sync 0 (Double 3) example_composition ! Suc 0)
       = seg_file (apply_padding_and_sync 0 (Double 3) example_composition ! 0)
   \<and> seg_start (apply_padding_and_sync 0 (Double 3) example_composition ! Suc 0)
       < seg_end (apply_padding_and_sync 0 (Double 3) example_composition ! 0)
   \<and> seg_start (add_padding (Double 3) (apply_padding_and_sync 0 (Double 3) example_composition) ! Suc 0)
       = Double (5/2)
   \<and> seg_end (add_padding (Double 3) (apply_padding_and_sync 0 (Double 3) example_composition) ! 0)
       = Double 5
   \<and> \<not> (seg_end (add_padding (Double 3) (apply_padding_and_sync 0 (Double 3) example_composition) ! 0)
          \<le> seg_start (add_padding (Double 3) (apply_padding_and_sync 0 (Double 3) example_composition) ! Suc 0))"
proof -
  have h1: "Suc 0 < length (apply_padding_and_sync 0 (Double 3) example_composition)"
    and h2: "seg_file (apply_padding_and_sync 0 (Double 3) example_composition ! Suc 0)
       = seg_file (apply_padding_and_sync 0 (Double 3) example_composition ! 0)"
    and h3: "seg_start (apply_padding_and_sync 0 (Double 3) example_composition ! Suc 0)
       < seg_end (apply_padding_and_sync 0 (Double 3) example_composition ! 0)"
    by code_simp+
  have v: "seg_start (apply_padding_and_sync 0 (Double 3) example_composition ! Suc 0) + Double 3
             = Double (5/2)"
    "seg_end (apply_padding_and_sync 0 (Double 3) example_composition ! 0) = Double 5"
    "\<not> Double 5 \<le> Double (5/2)"
    by code_simp+
  from overlap_correction_advances_by_padding [OF h1 h2 h3, of example_env "''out.mp4''" "Double 3"]
  show ?thesis using h1 h2 h3 v by simp
qed

text \<open>
  Claim C1 as the specification words it fails: with a padding of one second the two
  cues of \<^verbatim>\<open>talk.mp4\<close>, half a second apart, become (0, 3) and (1.5, 4.5); the
  correction moves the later start to 2.5, which still precedes the earlier end 3.
\<close>

theorem overlap_correction_counterexample:
  "seg_file (apply_padding_and_sync 0 1 example_composition ! 1)
     = seg_file (apply_padding_and_sync 0 1 example_composition ! 0)
   \<and> seg_start (apply_padding_and_sync 0 1 example_composition ! 1)
     < seg_end (apply_padding_and_sync 0 1 example_composition ! 0)
   \<and> \<not> (seg_end (fst (create_supercut example_env (apply_padding_and_sync 0 1 example_composition) ''out.mp4'' 1) ! 0)
        \<le> seg_start (fst (create_supercut example_env (apply_padding_and_sync 0 1 example_composition) ''out.mp4'' 1) ! 1))"
  by code_simp

subsection \<open>Adjustment, truncation and shuffle in videogrep\<close>

lemma output_stage_not_exit: "ending (output_stage e c out p t ec) \<noteq> Exited n"
  by (simp add: output_stage_def Let_def split: prod.splits)

lemma output_stage_test_segments: "segments (output_stage e c out p True ec) = c"
  using demo_supercut_fst [of c p] by (auto simp: output_stage_def split: prod.splits)

text \<open>
  Claim C2, as the code has it. The adjustment step keeps the number of segments and
  sets the start of each to the float result of \<open>(start + s) - p\<close> and its end to that of
  \<open>(end + s) + p\<close>; the other fields stay. The expanded duration \<open>end - start\<close> equals the
  original duration plus \<open>2p\<close> where these float operations are exact, and can differ
  from it by rounding otherwise. In a demo run of \<^verbatim>\<open>videogrep\<close> without truncation
  and shuffle the segments end as exactly this list, with \<open>s\<close> and \<open>p\<close> the sync and the
  padding divided by 1000.
\<close>

theorem padding_sync_adjustment:
  "length (apply_padding_and_sync s p composition) = length composition
   \<and> (\<forall>i. i < length composition \<longrightarrow>
        seg_start (apply_padding_and_sync s p composition ! i) = seg_start (composition ! i) + s - p
      \<and> seg_end (apply_padding_and_sync s p composition ! i) = seg_end (composition ! i) + s + p
      \<and> seg_file (apply_padding_and_sync s p composition ! i) = seg_file (composition ! i)
      \<and> seg_time (apply_padding_and_sync s p composition ! i) = seg_time (composition ! i)
      \<and> seg_line (apply_padding_and_sync s p composition ! i) = seg_line (composition ! i)
      \<and> (exact_plus (seg_start (composition ! i)) s
           \<and> exact_minus (seg_start (composition ! i) + s) p
           \<and> exact_plus (seg_end (composition ! i)) s
           \<and> exact_plus (seg_end (composition ! i) + s) p
           \<and> exact_minus (seg_end (apply_padding_and_sync s p composition ! i))
                           (seg_start (apply_padding_and_sync s p composition ! i))
          \<longrightarrow> val (seg_end (apply_padding_and_sync s p composition ! i)
                     - seg_start (apply_padding_and_sync s p composition ! i))
                = (val (seg_end (composition ! i)) - val (seg_start (composition ! i))) + 2 * val p))
   \<and> (compose e inputfile search searchtype use_transcript use_vtt = Value composition
        \<and> composition \<noteq> [] \<longrightarrow>
      map_option segments
        (videogrep e inputfile outputfile search searchtype 0 padding_ms True False sync_ms
           use_transcript use_vtt export_clips)
        = Some (apply_padding_and_sync (sync_ms / float_of_int 1000) (padding_ms / float_of_int 1000)
                  composition))"
  by (simp add: apply_padding_and_sync_def videogrep_def process_composition_def
      output_stage_test_segments take_maxclips_def randomized_def Let_def
      exact_plus_def exact_minus_def)

theorem padding_sync_adjustment_witness:
  "(1::nat) < length example_composition
   \<and> Double 250 / float_of_int 1000 = Double (1/4) \<and> Double 500 / float_of_int 1000 = Double (1/2)
   \<and> seg_start (apply_padding_and_sync (Double (1/4)) (Double (1/2)) example_composition ! 1) = Double (9/4)
   \<and> seg_end (apply_padding_and_sync (Double (1/4)) (Double (1/2)) example_composition ! 1) = Double (17/4)
   \<and> exact_plus (seg_start (example_composition ! 1)) (Double (1/4))
   \<and> exact_minus (seg_start (example_composition ! 1) + Double (1/4)) (Double (1/2))
   \<and> exact_plus (seg_end (example_composition ! 1)) (Double (1/4))
   \<and> exact_plus (seg_end (example_composition ! 1) + Double (1/4)) (Double (1/2))
   \<and> exact_minus (seg_end (apply_padding_and_sync (Double (1/4)) (Double (1/2)) example_composition ! 1))
                   (seg_start (apply_padding_and_sync (Double (1/4)) (Double (1/2)) example_composition ! 1))
   \<and> val (seg_end (apply_padding_and_sync (Double (1/4)) (Double (1/2)) example_composition ! 1)
           - seg_start (apply_padding_and_sync (Double (1/4)) (Double (1/2)) example_composition ! 1)) = 2
   \<and> compose example_env [''talk.mp4''] ''hello'' ''re'' True False = Value example_composition
   \<and> example_composition \<noteq> []
   \<and> map_option segments
        (videogrep example_env [''talk.mp4''] ''out.mp4'' ''hello'' ''re'' 0 (Double 500) True False
           (Double 250) True False False)
       = Some (apply_padding_and_sync (Double (1/4)) (Double (1/2)) example_composition)"
proof -
  have h: "(1::nat) < length example_composition" "example_composition \<noteq> []"
    "compose example_env [''talk.mp4''] ''hello'' ''re'' True False = Value example_composition"
    by (simp_all add: example_composition_def compose_def example_env_def)
  have ms: "Double 250 / float_of_int 1000 = Double (1/4)"
    "Double 500 / float_of_int 1000 = Double (1/2)"
    by code_simp+
  have v: "seg_start (example_composition ! 1) + Double (1/4) - Double (1/2) = Double (9/4)"
    "seg_end (example_composition ! 1) + Double (1/4) + Double (1/2) = Double (17/4)"
    "val (seg_end (example_composition ! 1)) - val (seg_start (example_composition ! 1)) + 2 * val (Double (1/2)) = 2"
    by code_simp+
  have x: "exact_plus (seg_start (example_composition ! 1)) (Double (1/4))"
    "exact_minus (seg_start (example_composition ! 1) + Double (1/4)) (Double (1/2))"
    "exact_plus (seg_end (example_composition ! 1)) (Double (1/4))"
    "exact_plus (seg_end (example_composition ! 1) + Double (1/4)) (Double (1/2))"
    "exact_minus (Double (17/4)) (Double (9/4))"
    by code_simp+
  note t = padding_sync_adjustment [of "Double (1/4)" "Double (1/2)" example_composition example_env
      "[''talk.mp4'']" "''hello''" "''re''" True False "''out.mp4''" "Double 500" "Double 250" False]
  let ?a = "apply_padding_and_sync (Double (1/4)) (Double (1/2)) example_composition"
  from t h(1) have st: "seg_start (?a ! 1) = Double (9/4)" and en: "seg_end (?a ! 1) = Double (17/4)"
    using v(1,2) by simp_all
  have x5: "exact_minus (seg_end (?a ! 1)) (seg_start (?a ! 1))"
    unfolding st en by (rule x(5))
  from t h(1) x(1-4) x5
  have dur: "val (seg_end (?a ! 1) - seg_start (?a ! 1))
      = (val (seg_end (example_composition ! 1)) - val (seg_start (example_composition ! 1)))
        + 2 * val (Double (1/2))"
    by blast
  from t h(2,3) have run: "map_option segments
        (videogrep example_env [''talk.mp4''] ''out.mp4'' ''hello'' ''re'' 0 (Double 500) True False
           (Double 250) True False False)
       = Some (apply_padding_and_sync (Double 250 / float_of_int 1000) (Double 500 / float_of_int 1000)
                 example_composition)"
    by blast
  show ?thesis
    using h ms st en x(1-4) x5 dur v(3) run by simp
qed

text \<open>
  Claim C2 as worded fails on the floats of the code. With a padding of 100 ms and no
  sync the first cue (1.0, 2.0) of the example becomes (0.9, 2.1) in floats; its duration
  is the float 1.2000000000000002, while the original duration plus twice the padding is
  the float 1.2.
\<close>

theorem padding_sync_adjustment_counterexample:
  "seg_end (apply_padding_and_sync 0 (Double 100 / float_of_int 1000) example_composition ! 0)
     - seg_start (apply_padding_and_sync 0 (Double 100 / float_of_int 1000) example_composition ! 0)
     = Double (1351079888211149 / 1125899906842624)
   \<and> (seg_end (example_composition ! 0) - seg_start (example_composition ! 0))
       + float_of_int 2 * (Double 100 / float_of_int 1000)
     = Double (5404319552844595 / 4503599627370496)
   \<and> seg_end (apply_padding_and_sync 0 (Double 100 / float_of_int 1000) example_composition ! 0)
       - seg_start (apply_padding_and_sync 0 (Double 100 / float_of_int 1000) example_composition ! 0)
     \<noteq> (seg_end (example_composition ! 0) - seg_start (example_composition ! 0))
         + float_of_int 2 * (Double 100 / float_of_int 1000)"
  by code_simp

text \<open>
  Claim C3. For \<open>k > 0\<close> the truncation keeps the first \<open>min k |C|\<close> segments in their
  order. It is applied to the adjusted composition and before the shuffle: what a demo
  run ends with is the truncated list, and with \<^verbatim>\<open>randomize\<close> the shuffle of the
  truncated list.
\<close>

theorem truncation_precedes_shuffle:
  assumes "0 < k"
  shows "take_maxclips k composition = take (nat k) composition
    \<and> length (take_maxclips k composition) = min (nat k) (length composition)
    \<and> (\<forall>i. i < length (take_maxclips k composition) \<longrightarrow> take_maxclips k composition ! i = composition ! i)
    \<and> (composition \<noteq> [] \<longrightarrow>
         segments (process_composition e composition outputfile search k p True False s export_clips)
           = take_maxclips k (apply_padding_and_sync s p composition)
       \<and> segments (process_composition e composition outputfile search k p True True s export_clips)
           = shuffle e (take_maxclips k (apply_padding_and_sync s p composition)))"
  using assms
  by (simp add: take_maxclips_def process_composition_def output_stage_test_segments randomized_def Let_def)

theorem truncation_precedes_shuffle_witness:
  "(0::int) < 2
   \<and> take_maxclips 2 example_composition = take 2 example_composition
   \<and> length (take_maxclips 2 example_composition) = 2
   \<and> take_maxclips 2 example_composition ! 1 = example_composition ! 1
   \<and> segments (process_composition example_env example_composition ''out.mp4'' ''hello'' 2 1
                 True True 0 False)
       = rev (take_maxclips 2 (apply_padding_and_sync 0 1 example_composition))"
proof -
  have k: "(0::int) < 2" by simp
  have h: "example_composition \<noteq> []" "length example_composition = 3"
    "shuffle example_env = rev"
    by (simp_all add: example_composition_def example_env_def)
  from truncation_precedes_shuffle [OF k, of example_composition example_env "''out.mp4''"
      "''hello''" 1 0 False]
  show ?thesis using h by simp
qed

subsection \<open>The no-match exit\<close>

text \<open>
  Claim C5. On an empty composition \<^verbatim>\<open>videogrep\<close> prints that the search term was not
  found and exits with status 1; nothing else happens, so no output file is written.
  A non-empty composition never ends in an exit: its run starts by printing the number
  of places found.
\<close>

theorem no_match_exit:
  "process_composition e [] outputfile search maxclips p test randomize s export_clips
     = \<lparr>events = [Print (''[!] Search term '' @ quote @ search @ quote @ '' was not found in any file.'')],
        segments = [], ending = Exited 1\<rparr>
   \<and> (compose e inputfile search searchtype use_transcript use_vtt = Value [] \<longrightarrow>
        videogrep e inputfile outputfile search searchtype maxclips padding_ms test randomize sync_ms
          use_transcript use_vtt export_clips
        = Some \<lparr>events = [Print (''[!] Search term '' @ quote @ search @ quote @ '' was not found in any file.'')],
                segments = [], ending = Exited 1\<rparr>)
   \<and> (composition \<noteq> [] \<longrightarrow>
        (\<forall>n. ending (process_composition e composition outputfile search maxclips p test randomize s export_clips)
               \<noteq> Exited n)
        \<and> hd (events (process_composition e composition outputfile search maxclips p test randomize s export_clips))
            = Print (''[+] Search term '' @ quote @ search @ quote @ '' was found in ''
                     @ str_nat (length composition) @ '' places.''))"
proof -
  have "ending (process_composition e composition outputfile search maxclips p test randomize s export_clips)
               \<noteq> Exited n" if "composition \<noteq> []" for n
    using that output_stage_not_exit [of e "randomized e randomize
                        (take_maxclips maxclips (apply_padding_and_sync s p composition))" outputfile p test export_clips n]
    by (auto simp: process_composition_def Let_def)
  then show ?thesis
    by (simp add: process_composition_def videogrep_def Let_def)
qed

theorem no_match_exit_witness:
  "compose example_env [''talk.mp4''] ''zebra'' ''re'' False False = Value []
   \<and> videogrep example_env [''talk.mp4''] ''out.mp4'' ''zebra'' ''re'' 0 0 False False 0 False False False
       = Some \<lparr>events = [Print (''[!] Search term '' @ quote @ ''zebra'' @ quote @ '' was not found in any file.'')],
               segments = [], ending = Exited 1\<rparr>
   \<and> example_composition \<noteq> []
   \<and> ending (process_composition example_env example_composition ''out.mp4'' ''zebra'' 0 0
                False False 0 False) \<noteq> Exited 1"
proof -
  have c: "compose example_env [''talk.mp4''] ''zebra'' ''re'' False False = Value []"
    by code_simp
  have n: "example_composition \<noteq> []"
    by (simp add: example_composition_def)
  from no_match_exit [of example_env "''out.mp4''" "''zebra''" 0 0 False False 0 False
      "[''talk.mp4'']" "''re''" False False 0 0 example_composition]
  show ?thesis using c n by simp
qed

subsection \<open>Search types that search\_line does not handle\<close>

lemma search_line_other:
  "searchtype \<noteq> ''re'' \<Longrightarrow> searchtype \<noteq> ''word'' \<Longrightarrow> searchtype \<noteq> ''pos'' \<Longrightarrow> searchtype \<noteq> ''hyper''
   \<Longrightarrow> search_line e l search searchtype = PyNone"
  by (simp add: search_line_def)

lemma search_lines_no_match:
  assumes "\<And>l. \<not> truthy (search_line e l search searchtype)"
    and "set ks \<subseteq> fst ` set lines"
  shows "search_lines e search searchtype videofile lines ks composition = Value composition"
  using assms(2)
proof (induction ks)
  case Nil
  then show ?case by simp
next
  case (Cons k ks)
  then have "k \<in> fst ` set lines" by simp
  then obtain v where "map_of lines k = Some v"
    by (metis map_of_eq_None_iff not_Some_eq)
  with Cons assms(1) show ?case by (simp add: Let_def)
qed

lemma compose_loop_no_match:
  assumes "\<And>l. \<not> truthy (search_line e l search searchtype)"
    and "\<forall>srt \<in> set srts. isfile e srt"
  shows "compose_loop e search searchtype srts composition = Value composition"
  using assms(2)
proof (induction srts)
  case Nil
  then show ?case by simp
next
  case (Cons srt srts)
  then show ?case
    by (simp add: clean_srt_def search_lines_no_match [OF assms(1)] split: option.splits)
qed

lemma get_subtitle_files_exist:
  "get_subtitle_files e inputfile = Some srts \<Longrightarrow> (\<forall>srt \<in> set srts. isfile e srt) \<and> srts \<noteq> []"
  by (auto simp: get_subtitle_files_def Let_def split: if_splits)

text \<open>
  \<^verbatim>\<open>search_line\<close> returns None, without raising, for every search type other than
  \<^verbatim>\<open>re\<close>, \<^verbatim>\<open>word\<close>, \<^verbatim>\<open>pos\<close> and \<^verbatim>\<open>hyper\<close>. So for
  \<^verbatim>\<open>fragment\<close> and \<^verbatim>\<open>franken\<close> \<^verbatim>\<open>compose_from_srts\<close> returns the
  empty composition for every list of existing subtitle files, and whenever
  \<^verbatim>\<open>get_subtitle_files\<close> found at least one subtitle file the run in subtitle mode
  ends in the no-match exit.
\<close>

theorem unsupported_searchtypes_find_nothing:
  "(searchtype \<noteq> ''re'' \<and> searchtype \<noteq> ''word'' \<and> searchtype \<noteq> ''pos'' \<and> searchtype \<noteq> ''hyper''
      \<longrightarrow> search_line e l search searchtype = PyNone \<and> \<not> truthy (search_line e l search searchtype))
   \<and> ((searchtype = ''fragment'' \<or> searchtype = ''franken'') \<and> (\<forall>srt \<in> set srts. isfile e srt)
      \<longrightarrow> compose_from_srts e (Some srts) search searchtype = Value [])
   \<and> ((searchtype = ''fragment'' \<or> searchtype = ''franken'') \<and> get_subtitle_files e inputfile = Some srts
      \<longrightarrow> videogrep e inputfile outputfile search searchtype maxclips padding test randomize sync
            False False export_clips
          = Some \<lparr>events = [Print (''[!] Search term '' @ quote @ search @ quote @ '' was not found in any file.'')],
                  segments = [], ending = Exited 1\<rparr>)"
proof -
  have none: "search_line e l search searchtype = PyNone"
    if "searchtype = ''fragment'' \<or> searchtype = ''franken''" for l
    using that by (auto simp: search_line_def)
  have empty: "compose_from_srts e (Some srts) search searchtype = Value []"
    if "searchtype = ''fragment'' \<or> searchtype = ''franken''" "\<forall>srt \<in> set srts. isfile e srt"
    using that none by (simp add: compose_from_srts_def compose_loop_no_match)
  have run: "videogrep e inputfile outputfile search searchtype maxclips padding test randomize sync
            False False export_clips
          = Some \<lparr>events = [Print (''[!] Search term '' @ quote @ search @ quote @ '' was not found in any file.'')],
                  segments = [], ending = Exited 1\<rparr>"
    if "searchtype = ''fragment'' \<or> searchtype = ''franken''" "get_subtitle_files e inputfile = Some srts"
    using empty [OF that(1)] get_subtitle_files_exist [OF that(2)] that(2)
    by (simp add: videogrep_def compose_def process_composition_def)
  show ?thesis using empty run by (simp add: search_line_other)
qed

theorem unsupported_searchtypes_find_nothing_witness:
  "''fragment'' \<noteq> ''re'' \<and> ''fragment'' \<noteq> ''word'' \<and> ''fragment'' \<noteq> ''pos'' \<and> ''fragment'' \<noteq> ''hyper''
   \<and> search_line example_env ''hello world'' ''hello'' ''fragment'' = PyNone
   \<and> isfile example_env ''talk.srt''
   \<and> compose_from_srts example_env (Some [''talk.srt'']) ''hello'' ''fragment'' = Value []
   \<and> get_subtitle_files example_env [''talk.mp4''] = Some [''talk.srt'']
   \<and> videogrep example_env [''talk.mp4''] ''out.mp4'' ''hello'' ''fragment'' 0 0 False False 0
         False False False
       = Some \<lparr>events = [Print (''[!] Search term '' @ quote @ ''hello'' @ quote @ '' was not found in any file.'')],
               segments = [], ending = Exited 1\<rparr>"
proof -
  have h: "isfile example_env ''talk.srt''"
    "get_subtitle_files example_env [''talk.mp4''] = Some [''talk.srt'']"
    by code_simp+
  from unsupported_searchtypes_find_nothing [of "''fragment''" example_env "''hello world''"
      "''hello''" "[''talk.srt'']" "[''talk.mp4'']" "''out.mp4''" 0 0 False False 0 False]
  show ?thesis using h by simp
qed

text \<open>
  Claim C10 says that in subtitle mode the search types \<^verbatim>\<open>fragment\<close> and
  \<^verbatim>\<open>franken\<close> end in the no-match exit for every input. Where no subtitle file is
  found the code does not get there: \<^verbatim>\<open>get_subtitle_files\<close>, documented to return
  a list, returns \<^verbatim>\<open>False\<close>; \<^verbatim>\<open>compose_from_srts\<close> raises TypeError
  iterating over it instead of returning the empty composition; and the run ends with
  that exception, having printed no diagnostic of \<^verbatim>\<open>videogrep\<close> and not called
  \<^verbatim>\<open>exit\<close>.
\<close>

theorem no_subtitle_files_raises_type_error:
  "get_subtitle_files example_env [''lecture.mp4''] = None
   \<and> compose_from_srts example_env (get_subtitle_files example_env [''lecture.mp4'']) ''hello'' ''fragment''
       = Raises TypeError
   \<and> videogrep example_env [''lecture.mp4''] ''out.mp4'' ''hello'' ''fragment'' 0 0 False False 0 False False False
       = Some \<lparr>events = [], segments = [], ending = Raised TypeError\<rparr>"
  by code_simp

subsection \<open>The two-cue scenario\<close>

lemma clean_example: "clean_srt_text example_srt = [(''00:00:01,000 --> 00:00:02,000'', ''hello world  ''), (''00:00:05,000 --> 00:00:06,500'', ''hello there '')]"
  by code_simp

lemma span1: "convert_timespan ''00:00:01,000 --> 00:00:02,000'' = Value (Double 1.0, Double 2.0)"
  by code_simp

lemma span2: "convert_timespan ''00:00:05,000 --> 00:00:06,500'' = Value (Double 5.0, Double 6.5)"
  by code_simp

lemma unpadded:
  "Double 1 + 0 / float_of_int 1000 - 0 / float_of_int 1000 = Double 1"
  "Double 2 + 0 / float_of_int 1000 + 0 / float_of_int 1000 = Double 2"
  "Double 5 + 0 / float_of_int 1000 - 0 / float_of_int 1000 = Double 5"
  "Double (13 / 2) + 0 / float_of_int 1000 + 0 / float_of_int 1000 = Double (13 / 2)"
  by code_simp+

lemma strip1: "strip ''hello world  '' = ''hello world''" "strip ''hello there '' = ''hello there''"
  by code_simp+

text \<open>
  Claim C7. The subtitle file holds exactly the cues 00:00:01,000 --> 00:00:02,000
  \<^verbatim>\<open>hello world\<close> and 00:00:05,000 --> 00:00:06,500 \<^verbatim>\<open>hello there\<close>
  (\<open>example_srt\<close>), numbered 1 and 2. It exists, a video file with a usable extension
  exists beside it, and the regular expression \<^verbatim>\<open>hello\<close> matches both lines. Then the
  composition is the two segments in file order with (start, end) = (1.0, 2.0) and
  (5.0, 6.5), as floats, and a run with padding 0 and sync 0 keeps them so.
\<close>

theorem two_cue_scenario:
  assumes "isfile e srt" and "read_text e srt = example_srt"
    and "find_videofile e srt = Some video"
    and "re_search e ''hello'' ''hello world''" and "re_search e ''hello'' ''hello there''"
  shows "compose_from_srts e (Some [srt]) ''hello'' ''re''
           = Value [\<lparr>seg_file = video, seg_time = Some ''00:00:01,000 --> 00:00:02,000'',
                     seg_start = Double 1.0, seg_end = Double 2.0, seg_line = ''hello world''\<rparr>,
                    \<lparr>seg_file = video, seg_time = Some ''00:00:05,000 --> 00:00:06,500'',
                     seg_start = Double 5.0, seg_end = Double 6.5, seg_line = ''hello there''\<rparr>]
    \<and> (get_subtitle_files e inputfile = Some [srt] \<longrightarrow>
         map_option segments
           (videogrep e inputfile outputfile ''hello'' ''re'' 0 0 True False 0 False False export_clips)
         = Some [\<lparr>seg_file = video, seg_time = Some ''00:00:01,000 --> 00:00:02,000'',
                   seg_start = Double 1.0, seg_end = Double 2.0, seg_line = ''hello world''\<rparr>,
                  \<lparr>seg_file = video, seg_time = Some ''00:00:05,000 --> 00:00:06,500'',
                   seg_start = Double 5.0, seg_end = Double 6.5, seg_line = ''hello there''\<rparr>])"
proof -
  have c: "compose_from_srts e (Some [srt]) ''hello'' ''re''
           = Value [\<lparr>seg_file = video, seg_time = Some ''00:00:01,000 --> 00:00:02,000'',
                     seg_start = Double 1.0, seg_end = Double 2.0, seg_line = ''hello world''\<rparr>,
                    \<lparr>seg_file = video, seg_time = Some ''00:00:05,000 --> 00:00:06,500'',
                     seg_start = Double 5.0, seg_end = Double 6.5, seg_line = ''hello there''\<rparr>]"
    using assms
    by (simp add: compose_from_srts_def clean_srt_def clean_example span1 span2 strip1 search_line_def)
  show ?thesis unfolding c
    by (simp add: videogrep_def compose_def c process_composition_def take_maxclips_def randomized_def
        apply_padding_and_sync_def output_stage_test_segments Let_def unpadded)
qed

theorem two_cue_scenario_witness:
  "isfile example_env ''talk.srt'' \<and> read_text example_env ''talk.srt'' = example_srt
   \<and> find_videofile example_env ''talk.srt'' = Some ''talk.mp4''
   \<and> re_search example_env ''hello'' ''hello world'' \<and> re_search example_env ''hello'' ''hello there''
   \<and> get_subtitle_files example_env [''talk.mp4''] = Some [''talk.srt'']
   \<and> compose_from_srts example_env (Some [''talk.srt'']) ''hello'' ''re''
           = Value [\<lparr>seg_file = ''talk.mp4'', seg_time = Some ''00:00:01,000 --> 00:00:02,000'',
                     seg_start = Double 1.0, seg_end = Double 2.0, seg_line = ''hello world''\<rparr>,
                    \<lparr>seg_file = ''talk.mp4'', seg_time = Some ''00:00:05,000 --> 00:00:06,500'',
                     seg_start = Double 5.0, seg_end = Double 6.5, seg_line = ''hello there''\<rparr>]
   \<and> map_option segments
           (videogrep example_env [''talk.mp4''] ''out.mp4'' ''hello'' ''re'' 0 0 True False 0
              False False False)
         = Some [\<lparr>seg_file = ''talk.mp4'', seg_time = Some ''00:00:01,000 --> 00:00:02,000'',
                   seg_start = Double 1.0, seg_end = Double 2.0, seg_line = ''hello world''\<rparr>,
                  \<lparr>seg_file = ''talk.mp4'', seg_time = Some ''00:00:05,000 --> 00:00:06,500'',
                   seg_start = Double 5.0, seg_end = Double 6.5, seg_line = ''hello there''\<rparr>]"
proof -
  have h1: "isfile example_env ''talk.srt''" by code_simp
  have h2: "read_text example_env ''talk.srt'' = example_srt" by (simp add: example_env_def)
  have h3: "find_videofile example_env ''talk.srt'' = Some ''talk.mp4''" by code_simp
  have h4: "re_search example_env ''hello'' ''hello world''" by code_simp
  have h5: "re_search example_env ''hello'' ''hello there''" by code_simp
  have h6: "get_subtitle_files example_env [''talk.mp4''] = Some [''talk.srt'']" by code_simp
  from two_cue_scenario [OF h1 h2 h3 h4 h5, of "[''talk.mp4'']" "''out.mp4''" False]
  show ?thesis using h1 h2 h3 h4 h5 h6 by simp
qed

subsection \<open>Which operations rewrite a segment\<close>

lemma same_but_start_refl: "same_but_start p a a"
  by (simp add: same_but_start_def)

lemma same_but_start_refl_list: "list_all2 (same_but_start p) xs xs"
  by (simp add: list_all2_conv_all_nth same_but_start_refl)

lemma add_padding_rel: "list_all2 (same_but_start p) (add_padding p xs) xs"
proof -
  have "same_but_start p (add_padding p xs ! i) (xs ! i)" if "i < length xs" for i
  proof (cases i)
    case 0
    with that obtain y ys where "xs = y # ys" by (cases xs) auto
    then show ?thesis using 0 by (simp add: add_padding_hd same_but_start_refl)
  next
    case (Suc j)
    then show ?thesis using that by (simp add: add_padding_nth_Suc same_but_start_def)
  qed
  then show ?thesis by (simp add: list_all2_conv_all_nth add_padding_length)
qed

lemma batch_loop_unfold:
  "i < n \<Longrightarrow>
     batch_loop e out p n i (c, ev, bc)
       = batch_loop e out p n (i + 20)
           (take i c @ add_padding p (take 20 (drop i c)) @ drop (i + 20) c,
            ev @ fst (snd (create_supercut e (take 20 (drop i c)) (out @ ''.tmp'' @ str_nat i @ ''.mp4'') p)),
            if snd (snd (create_supercut e (take 20 (drop i c)) (out @ ''.tmp'' @ str_nat i @ ''.mp4'') p))
            then bc @ [out @ ''.tmp'' @ str_nat i @ ''.mp4''] else bc)"
  using create_supercut_fst [of e "take 20 (drop i c)" "out @ ''.tmp'' @ str_nat i @ ''.mp4''" p]
  by (subst batch_loop.simps) (auto simp: Let_def BATCH_SIZE_def split: prod.splits)

lemma batch_loop_rel:
  "length c = n \<Longrightarrow>
   \<exists>d. fst (batch_loop e out p n i (c, ev, bc)) = take i c @ d
        \<and> list_all2 (same_but_start p) d (drop i c)"
proof (induction "n - i" arbitrary: i c ev bc rule: less_induct)
  case less
  show ?case
  proof (cases "i < n")
    case False
    then have "batch_loop e out p n i (c, ev, bc) = (c, ev, bc)"
      by (subst batch_loop.simps) simp
    then show ?thesis
      by (intro exI [of _ "drop i c"]) (simp add: same_but_start_refl_list)
  next
    case True
    define B where "B = add_padding p (take 20 (drop i c))"
    define Y where "Y = drop (i + 20) c"
    define c' where "c' = take i c @ B @ Y"
    from batch_loop_unfold [OF True, of e out p c ev bc]
    obtain ev' bc' where step: "batch_loop e out p n i (c, ev, bc)
        = batch_loop e out p n (i + 20) (c', ev', bc')"
      unfolding c'_def B_def Y_def by simp
    have lenB: "length B = min 20 (length c - i)"
      by (simp add: B_def add_padding_length)
    have len': "length c' = n"
      using True less.prems by (simp add: c'_def lenB Y_def)
    have BY: "length B < 20 \<Longrightarrow> Y = []"
      using lenB by (simp add: Y_def)
    have tk: "take (i + 20) c' = take i c @ B"
      using True less.prems lenB BY by (cases "length B < 20") (simp_all add: c'_def)
    have dr: "drop (i + 20) c' = Y"
      using True less.prems lenB BY by (cases "length B < 20") (simp_all add: c'_def)
    have "n - (i + 20) < n - i" using True by simp
    from less.hyps [OF this len', of ev' bc']
    obtain d where d: "fst (batch_loop e out p n (i + 20) (c', ev', bc')) = take (i + 20) c' @ d"
      and rel: "list_all2 (same_but_start p) d (drop (i + 20) c')" by blast
    have "drop 20 (drop i c) = Y"
      by (simp add: Y_def add.commute)
    then have split: "drop i c = take 20 (drop i c) @ Y"
      using append_take_drop_id [of 20 "drop i c"] by simp
    have "list_all2 (same_but_start p) (B @ d) (take 20 (drop i c) @ Y)"
      using rel unfolding dr B_def by (intro list_all2_appendI add_padding_rel)
    then have "list_all2 (same_but_start p) (B @ d) (drop i c)"
      using split by simp
    moreover have "fst (batch_loop e out p n i (c, ev, bc)) = take i c @ (B @ d)"
      unfolding step d tk by simp
    ultimately show ?thesis by blast
  qed
qed

lemma create_supercut_in_batches_rel:
  "list_all2 (same_but_start p) (fst (create_supercut_in_batches e c out p)) c"
proof -
  from batch_loop_rel [of c "length c" e out p 0 "[]" "[]"]
  obtain d where "fst (batch_loop e out p (length c) 0 (c, [], [])) = d"
    and "list_all2 (same_but_start p) d c" by auto
  then show ?thesis
    by (auto simp: create_supercut_in_batches_def split: prod.splits)
qed

lemma output_stage_rel:
  "list_all2 (same_but_start p) (segments (output_stage e c out p t ec)) c"
  using create_supercut_in_batches_rel [of p e c out] create_supercut_fst [of e c out p]
    add_padding_rel [of p c] demo_supercut_fst [of c p]
  by (auto simp: output_stage_def Let_def same_but_start_refl_list split: prod.splits)

lemma output_stage_unchanged:
  "t \<or> lower (snd (splitext out)) = ''.otio'' \<or> export_clips
   \<Longrightarrow> segments (output_stage e c out p t export_clips) = c"
  using demo_supercut_fst [of c p]
  by (auto simp: output_stage_def Let_def split: prod.splits)

text \<open>
  Claim C6, as the code has it. After the adjustment step (and the truncation and
  shuffle, which only select and reorder) a run never rewrites the file, the time span,
  the end or the line of a segment. The start is rewritten again only by the overlap
  correction of \<^verbatim>\<open>create_supercut\<close> on the rendering path, which advances it by the
  padding at most once. The demo path, the \<^verbatim>\<open>.otio\<close> export and the export of single
  clips rewrite nothing.
\<close>

theorem segments_after_adjustment:
  assumes "composition \<noteq> []"
  shows "list_all2 (same_but_start p)
           (segments (process_composition e composition outputfile search k p test randomize s export_clips))
           (randomized e randomize (take_maxclips k (apply_padding_and_sync s p composition)))
    \<and> (test \<or> lower (snd (splitext outputfile)) = ''.otio'' \<or> export_clips \<longrightarrow>
         segments (process_composition e composition outputfile search k p test randomize s export_clips)
           = randomized e randomize (take_maxclips k (apply_padding_and_sync s p composition)))"
  using assms output_stage_rel output_stage_unchanged
  by (simp add: process_composition_def Let_def)

theorem segments_after_adjustment_witness:
  "example_composition \<noteq> []
   \<and> list_all2 (same_but_start 1)
        (segments (process_composition example_env example_composition ''out.mp4'' ''hello''
                     0 1 False False 0 False))
        (apply_padding_and_sync 0 1 example_composition)
   \<and> segments (process_composition example_env example_composition ''out.mp4'' ''hello''
                 0 1 True False 0 False)
       = apply_padding_and_sync 0 1 example_composition"
proof -
  have n: "example_composition \<noteq> []"
    by (simp add: example_composition_def)
  from segments_after_adjustment [OF n, of 1 example_env "''out.mp4''" "''hello''" 0 False False 0 False]
    segments_after_adjustment [OF n, of 1 example_env "''out.mp4''" "''hello''" 0 True False 0 False]
  show ?thesis using n by (simp add: randomized_def take_maxclips_def)
qed

text \<open>
  Claim C6 as worded fails on the rendering path: with a padding of one second the
  adjustment step sets the start of the second cue of \<^verbatim>\<open>talk.mp4\<close> to 1.5, and
  \<^verbatim>\<open>create_supercut\<close> then rewrites it to 2.5.
\<close>

theorem segments_rewritten_after_adjustment_counterexample:
  "seg_start (apply_padding_and_sync 0 1 example_composition ! 1) = Double (3/2)
   \<and> seg_start (segments (process_composition example_env example_composition ''out.mp4'' ''hello''
                  0 1 False False 0 False) ! 1) = Double (5/2)"
  by code_simp


subsection \<open>Parsing cue blocks\<close>

lemma LF_not_digit: "\<not> is_digit (CHR 0x0A)" "\<not> is_digit (CHR 0x0D)"
  by (simp_all add: is_digit_def)

lemma sub_index_numeric:
  assumes "numeric l"
  shows "sub_index True (l @ CHR 0x0A # rest) = sub_index True rest"
proof -
  from assms obtain c cs where l: "l = c # cs" by (cases l) (auto simp: numeric_def)
  have all: "\<forall>x \<in> set l. is_digit x" using assms by (simp add: numeric_def list_all_iff)
  have t: "takeWhile is_digit (l @ CHR 0x0A # rest) = l"
    using all by (simp add: takeWhile_append2 LF_not_digit)
  have d: "dropWhile is_digit (l @ CHR 0x0A # rest) = CHR 0x0A # rest"
    using all by (simp add: dropWhile_append2 LF_not_digit)
  show ?thesis using t d unfolding l by (simp add: Let_def)
qed

lemma sub_index_mid:
  "plain_line l \<Longrightarrow> sub_index False (l @ CHR 0x0A # rest) = l @ CHR 0x0A # sub_index True rest"
proof (induction l)
  case Nil
  then show ?case by (simp add: Let_def)
next
  case (Cons c cs)
  then have "c \<noteq> CHR 0x0A" by (auto simp: plain_line_def is_linebreak_def)
  with Cons show ?case by (simp add: Let_def plain_line_def)
qed

lemma sub_index_plain:
  assumes "plain_line l" and "\<not> numeric l"
  shows "sub_index True (l @ CHR 0x0A # rest) = l @ CHR 0x0A # sub_index True rest"
proof (cases l)
  case Nil
  then show ?thesis by (simp add: Let_def LF_not_digit)
next
  case (Cons c cs)
  from assms(2) Cons obtain x where x: "x \<in> set l" "\<not> is_digit x"
    by (auto simp: numeric_def list_all_iff)
  then have dw: "dropWhile is_digit (l @ CHR 0x0A # rest) = dropWhile is_digit l @ CHR 0x0A # rest"
    by (simp add: dropWhile_append1)
  have ne: "dropWhile is_digit l \<noteq> []" using x by (auto simp: dropWhile_eq_Nil_conv)
  then have "hd (dropWhile is_digit l) \<in> set l"
    by (metis hd_in_set set_dropWhileD)
  then have nl: "\<not> is_linebreak (hd (dropWhile is_digit l))"
    using assms(1) by (simp add: plain_line_def list_all_iff)
  then have h: "hd (dropWhile is_digit l) \<noteq> CHR 0x0A" "hd (dropWhile is_digit l) \<noteq> CHR 0x0D"
    by (auto simp: is_linebreak_def)
  have hd: "hd (dropWhile is_digit (l @ CHR 0x0A # rest)) = hd (dropWhile is_digit l)"
    using ne by (simp add: dw)
  have cs: "plain_line cs" and c: "c \<noteq> CHR 0x0A"
    using assms(1) Cons by (auto simp: plain_line_def is_linebreak_def)
  have "sub_index True (c # cs @ CHR 0x0A # rest) = c # sub_index False (cs @ CHR 0x0A # rest)"
    using hd h c unfolding Cons by (simp add: Let_def)
  then show ?thesis using sub_index_mid [OF cs] Cons by simp
qed


lemma text_of_lines_append: "text_of_lines (xs @ ys) = text_of_lines xs @ text_of_lines ys"
  by (simp add: text_of_lines_def)

lemma text_of_lines_Cons: "text_of_lines (l # ls) = l @ CHR 0x0A # text_of_lines ls"
  by (simp add: text_of_lines_def)

lemma sub_index_lines:
  "list_all plain_line ls \<Longrightarrow>
   sub_index True (text_of_lines ls @ rest)
     = text_of_lines (filter (\<lambda>l. \<not> numeric l) ls) @ sub_index True rest"
proof (induction ls)
  case Nil
  then show ?case by (simp add: text_of_lines_def)
next
  case (Cons l ls)
  then show ?case
    by (cases "numeric l") (simp_all add: text_of_lines_Cons sub_index_numeric sub_index_plain)
qed

lemma digit_not_linebreak: "is_digit c \<Longrightarrow> \<not> is_linebreak c"
  by (auto simp: is_digit_def is_linebreak_def)

lemma numeric_plain: "numeric l \<Longrightarrow> plain_line l"
  by (auto simp: numeric_def plain_line_def list_all_iff digit_not_linebreak)

lemma contains_set: "contains s sub \<Longrightarrow> set sub \<subseteq> set s"
proof (induction s)
  case Nil
  then show ?case by simp
next
  case (Cons c cs)
  from Cons.prems have "startswith (c # cs) sub \<or> contains cs sub" by simp
  then show ?case
  proof
    assume "startswith (c # cs) sub"
    then have "sub = take (length sub) (c # cs)" by (simp add: startswith_def)
    then have "set sub \<subseteq> set (c # cs)" by (metis set_take_subset)
    then show ?thesis .
  next
    assume "contains cs sub"
    with Cons.IH show ?thesis by auto
  qed
qed

lemma set_strip: "set (strip s) \<subseteq> set s"
proof -
  have "set (dropWhile is_space (rev (dropWhile is_space s))) \<subseteq> set (rev (dropWhile is_space s))"
    by (meson set_dropWhileD subsetI)
  also have "\<dots> \<subseteq> set s" using set_dropWhileD by fastforce
  finally show ?thesis by (simp add: strip_def)
qed

lemma span_not_numeric: "contains (strip s) ''-->'' \<Longrightarrow> \<not> numeric s"
proof
  assume c: "contains (strip s) ''-->''" and n: "numeric s"
  from contains_set [OF c] set_strip [of s] have "CHR ''-'' \<in> set s" by auto
  with n have "is_digit CHR ''-''" by (simp add: numeric_def list_all_iff)
  then show False by (simp add: is_digit_def)
qed

lemma span_key_nonempty: "contains (strip s) ''-->'' \<Longrightarrow> strip s \<noteq> []"
  by auto

lemma splitlines_acc_line:
  "plain_line l \<Longrightarrow>
   splitlines_acc acc (l @ CHR 0x0A # rest) = (rev acc @ l) # splitlines_acc [] rest"
proof (induction l arbitrary: acc)
  case Nil
  then show ?case by (cases rest) (simp_all add: is_linebreak_def)
next
  case (Cons c cs)
  then have c: "\<not> is_linebreak c" and cs: "plain_line cs" by (simp_all add: plain_line_def)
  from c have c': "c \<noteq> CHR 0x0D" by (auto simp: is_linebreak_def)
  obtain d ds where d: "cs @ CHR 0x0A # rest = d # ds" by (cases cs) auto
  have "splitlines_acc acc (c # cs @ CHR 0x0A # rest) = splitlines_acc (c # acc) (cs @ CHR 0x0A # rest)"
    unfolding d using c c' by simp
  then show ?case using Cons.IH [OF cs, of "c # acc"] by simp
qed

lemma splitlines_text_of_lines:
  "list_all plain_line ls \<Longrightarrow> splitlines (text_of_lines ls) = ls"
proof -
  have "list_all plain_line ls \<Longrightarrow> splitlines_acc [] (text_of_lines ls) = ls"
  proof (induction ls)
    case Nil
    then show ?case by (simp add: text_of_lines_def)
  next
    case (Cons l ls)
    then show ?case by (simp add: text_of_lines_Cons splitlines_acc_line)
  qed
  then show "list_all plain_line ls \<Longrightarrow> splitlines (text_of_lines ls) = ls"
    by (simp add: splitlines_def)
qed

lemma od_set_fresh: "k \<notin> fst ` set od \<Longrightarrow> od_set k v od = od @ [(k, v)]"
  by (induction od) auto

lemma od_append_last: "k \<notin> fst ` set od \<Longrightarrow> od_append k x (od @ [(k, v)]) = od @ [(k, v @ x)]"
  by (induction od) auto

lemma clean_srt_loop_text_lines:
  assumes "k \<noteq> []" and "k \<notin> fst ` set od"
  shows "list_all (\<lambda>l. \<not> contains (strip l) ''-->'') ts \<Longrightarrow>
   clean_srt_loop k (od @ [(k, v)]) (ts @ rest)
     = clean_srt_loop k (od @ [(k, v @ concat (map (\<lambda>l. strip l @ '' '') ts))]) rest"
proof (induction ts arbitrary: v)
  case Nil
  then show ?case by simp
next
  case (Cons t ts)
  then show ?case using assms by (simp add: Let_def od_append_last)
qed


lemma strip_Nil: "strip [] = []"
  by (simp add: strip_def)

lemma clean_srt_loop_cue:
  assumes "wellformed_cue c" and "strip (cue_span c) \<notin> fst ` set od"
  shows "clean_srt_loop key od ((cue_span c # filter (\<lambda>l. \<not> numeric l) (cue_lines c) @ [[]]) @ rest)
           = clean_srt_loop (strip (cue_span c)) (od @ [cue_entry c]) rest"
proof -
  let ?k = "strip (cue_span c)"
  let ?ts = "filter (\<lambda>l. \<not> numeric l) (cue_lines c) @ [[]]"
  from assms(1) have arrow: "contains ?k ''-->''" by (simp add: wellformed_cue_def)
  then have k: "?k \<noteq> []" by auto
  have ts: "list_all (\<lambda>l. \<not> contains (strip l) ''-->'') ?ts"
    using assms(1) by (auto simp: wellformed_cue_def list_all_iff strip_Nil)
  have "clean_srt_loop key od ((cue_span c # ?ts) @ rest)
          = clean_srt_loop ?k (od @ [(?k, [])]) (?ts @ rest)"
    using arrow assms(2) by (simp add: Let_def od_set_fresh)
  also have "\<dots> = clean_srt_loop ?k (od @ [(?k, [] @ concat (map (\<lambda>l. strip l @ '' '') ?ts))]) rest"
    by (rule clean_srt_loop_text_lines [OF k assms(2) ts])
  finally show ?thesis by (simp add: cue_entry_def)
qed

lemma clean_srt_loop_cues:
  "list_all wellformed_cue cues \<Longrightarrow>
   distinct (map fst od @ map (\<lambda>c. strip (cue_span c)) cues) \<Longrightarrow>
   clean_srt_loop key od
       (concat (map (\<lambda>c. cue_span c # filter (\<lambda>l. \<not> numeric l) (cue_lines c) @ [[]]) cues))
     = od @ map cue_entry cues"
proof (induction cues arbitrary: key od)
  case Nil
  then show ?case by simp
next
  case (Cons c cues)
  from Cons.prems have wf: "wellformed_cue c" and wfs: "list_all wellformed_cue cues"
    and fresh: "strip (cue_span c) \<notin> fst ` set od"
    and d: "distinct (map fst (od @ [cue_entry c]) @ map (\<lambda>c. strip (cue_span c)) cues)"
    by (auto simp: cue_entry_def)
  have "clean_srt_loop key od
       (concat (map (\<lambda>c. cue_span c # filter (\<lambda>l. \<not> numeric l) (cue_lines c) @ [[]]) (c # cues)))
     = clean_srt_loop (strip (cue_span c)) (od @ [cue_entry c])
         (concat (map (\<lambda>c. cue_span c # filter (\<lambda>l. \<not> numeric l) (cue_lines c) @ [[]]) cues))"
    using clean_srt_loop_cue [OF wf fresh] by simp
  also have "\<dots> = (od @ [cue_entry c]) @ map cue_entry cues"
    by (rule Cons.IH [OF wfs d])
  finally show ?case by simp
qed

lemma srt_text_lines: "srt_text cues = text_of_lines (concat (map block_lines cues))"
  by (induction cues) (simp_all add: srt_text_def cue_block_def text_of_lines_append text_of_lines_def)

lemma block_lines_plain:
  assumes "wellformed_cue c"
  shows "list_all plain_line (block_lines c)"
proof -
  from assms have "plain_line (cue_index c)" by (simp add: wellformed_cue_def numeric_plain)
  moreover from assms have "plain_line (cue_span c)" by (simp add: wellformed_cue_def)
  moreover from assms have "list_all plain_line (cue_lines c)"
    by (simp add: wellformed_cue_def list_all_iff)
  moreover have "plain_line []" by (simp add: plain_line_def)
  ultimately show ?thesis by (simp add: block_lines_def)
qed

lemma block_lines_filter:
  assumes "wellformed_cue c"
  shows "filter (\<lambda>l. \<not> numeric l) (block_lines c)
     = cue_span c # filter (\<lambda>l. \<not> numeric l) (cue_lines c) @ [[]]"
proof -
  from assms have "numeric (cue_index c)" by (simp add: wellformed_cue_def)
  moreover from assms have "\<not> numeric (cue_span c)"
    by (simp add: wellformed_cue_def span_not_numeric)
  moreover have "\<not> numeric []" by (simp add: numeric_def)
  ultimately show ?thesis by (simp add: block_lines_def)
qed

lemma sub_index_srt_text:
  assumes "list_all wellformed_cue cues"
  shows "splitlines (sub_index True (srt_text cues))
    = concat (map (\<lambda>c. cue_span c # filter (\<lambda>l. \<not> numeric l) (cue_lines c) @ [[]]) cues)"
proof -
  let ?L = "concat (map block_lines cues)"
  have plain: "list_all plain_line ?L"
    using assms block_lines_plain by (auto simp: list_all_iff)
  have f: "filter (\<lambda>l. \<not> numeric l) ?L
     = concat (map (\<lambda>c. cue_span c # filter (\<lambda>l. \<not> numeric l) (cue_lines c) @ [[]]) cues)"
    using assms by (induction cues) (simp_all add: block_lines_filter)
  have plain': "list_all plain_line (filter (\<lambda>l. \<not> numeric l) ?L)"
    using plain by (auto simp: list_all_iff)
  have "sub_index True (text_of_lines ?L @ []) = text_of_lines (filter (\<lambda>l. \<not> numeric l) ?L) @ sub_index True []"
    by (rule sub_index_lines [OF plain])
  then have "sub_index True (srt_text cues) = text_of_lines (filter (\<lambda>l. \<not> numeric l) ?L)"
    by (simp add: srt_text_lines)
  then show ?thesis using splitlines_text_of_lines [OF plain'] f by simp
qed

lemma clean_srt_text_wellformed:
  "wellformed_srt cues \<Longrightarrow> clean_srt_text (srt_text cues) = map cue_entry cues"
  using clean_srt_loop_cues [of cues "[]" "[]"]
  by (simp add: clean_srt_text_def sub_index_srt_text wellformed_srt_def)

text \<open>
  Claim C8. What \<^verbatim>\<open>clean_srt\<close> returns depends on the text of the file only, so
  parsing the same file again gives the same ordered sequence of time spans and texts.
  On a file of well-formed cue blocks the index lines are gone before the collecting
  loop runs, and the result is exactly one entry per cue, in file order, holding the
  time span and the text lines of that cue: no index line appears in any text.
\<close>

theorem cue_block_parsing:
  "(isfile e srt \<and> isfile e' srt \<and> read_text e srt = read_text e' srt
      \<longrightarrow> clean_srt e srt = clean_srt e' srt)
   \<and> (list_all wellformed_cue cues \<longrightarrow>
        splitlines (sub_index True (srt_text cues))
          = concat (map (\<lambda>c. cue_span c # filter (\<lambda>l. \<not> numeric l) (cue_lines c) @ [[]]) cues))
   \<and> (wellformed_srt cues \<longrightarrow> clean_srt_text (srt_text cues) = map cue_entry cues)
   \<and> (wellformed_srt cues \<and> isfile e srt \<and> read_text e srt = srt_text cues
        \<longrightarrow> clean_srt e srt = Value (map cue_entry cues))"
  by (simp add: clean_srt_def clean_srt_text_wellformed sub_index_srt_text)

theorem cue_block_parsing_witness:
  "wellformed_srt example_cues \<and> list_all wellformed_cue example_cues
   \<and> isfile (example_env\<lparr>read_text := \<lambda>p. srt_text example_cues\<rparr>) ''talk.srt''
   \<and> isfile (example_env\<lparr>read_text := \<lambda>p. srt_text example_cues, shuffle := id\<rparr>) ''talk.srt''
   \<and> splitlines (sub_index True (srt_text example_cues))
       = [''00:00:01,000 --> 00:00:02,000'', ''hello world'', [],
          ''00:00:05,000 --> 00:00:06,500'', ''hello'', ''there'', []]
   \<and> clean_srt (example_env\<lparr>read_text := \<lambda>p. srt_text example_cues\<rparr>) ''talk.srt''
       = Value [(''00:00:01,000 --> 00:00:02,000'', ''hello world  ''),
                (''00:00:05,000 --> 00:00:06,500'', ''hello there  '')]
   \<and> clean_srt (example_env\<lparr>read_text := \<lambda>p. srt_text example_cues, shuffle := id\<rparr>) ''talk.srt''
       = clean_srt (example_env\<lparr>read_text := \<lambda>p. srt_text example_cues\<rparr>) ''talk.srt''"
proof -
  let ?e = "example_env\<lparr>read_text := \<lambda>p. srt_text example_cues\<rparr>"
  let ?e' = "example_env\<lparr>read_text := \<lambda>p. srt_text example_cues, shuffle := id\<rparr>"
  have wf: "wellformed_srt example_cues" by code_simp
  then have wfs: "list_all wellformed_cue example_cues" by (simp add: wellformed_srt_def)
  have f: "isfile ?e ''talk.srt''" "isfile ?e' ''talk.srt''"
    "read_text ?e ''talk.srt'' = srt_text example_cues"
    "read_text ?e' ''talk.srt'' = read_text ?e ''talk.srt''"
    by (simp_all add: example_env_def)
  have v: "map cue_entry example_cues
       = [(''00:00:01,000 --> 00:00:02,000'', ''hello world  ''),
          (''00:00:05,000 --> 00:00:06,500'', ''hello there  '')]"
    by code_simp
  have l: "concat (map (\<lambda>c. cue_span c # filter (\<lambda>l. \<not> numeric l) (cue_lines c) @ [[]]) example_cues)
       = [''00:00:01,000 --> 00:00:02,000'', ''hello world'', [],
          ''00:00:05,000 --> 00:00:06,500'', ''hello'', ''there'', []]"
    by code_simp
  from cue_block_parsing [of ?e' "''talk.srt''" ?e example_cues]
    cue_block_parsing [of ?e "''talk.srt''" ?e example_cues]
  show ?thesis using wf wfs f v l by simp
qed

end

